theory Spec2Isabelle
  imports Main
begin

section \<open>Profile store (internal/config)\<close>

text \<open>
  \<^verbatim>\<open>type Profile struct { Name string; Path string }\<close> and
  \<^verbatim>\<open>type Config struct { Profiles []Profile }\<close>.
  Go strings are byte sequences; they are modelled as \<^typ>\<open>string\<close> (a list of 8-bit
  characters). Go's \<^verbatim>\<open>int\<close> indices are modelled as \<^typ>\<open>int\<close>.
\<close>

record Profile =
  Name :: string
  Path :: string

record Config =
  Profiles :: "Profile list"

text \<open>\<^verbatim>\<open>c.Profiles = append(c.Profiles, Profile{Name: name, Path: path})\<close>\<close>

definition AddProfile :: "Config \<Rightarrow> string \<Rightarrow> string \<Rightarrow> Config" where
  "AddProfile c name path = c\<lparr>Profiles := Profiles c @ [\<lparr>Name = name, Path = path\<rparr>]\<rparr>"

text \<open>
  \<^verbatim>\<open>if index >= 0 && index < len(c.Profiles) {
       c.Profiles = append(c.Profiles[:index], c.Profiles[index+1:]...) }\<close>
\<close>

definition RemoveProfile :: "Config \<Rightarrow> int \<Rightarrow> Config" where
  "RemoveProfile c index =
     (if index \<ge> 0 \<and> index < int (length (Profiles c))
      then c\<lparr>Profiles := take (nat index) (Profiles c) @ drop (nat (index + 1)) (Profiles c)\<rparr>
      else c)"

text \<open>
  \<^verbatim>\<open>ValidateProfiles\<close> asks the file system (\<^verbatim>\<open>os.Stat\<close>) for every profile path; the
  file system is a parameter \<open>exists\<close>. The resulting \<^verbatim>\<open>map[int]bool\<close> has exactly the
  keys \<open>0 .. len-1\<close>.
\<close>

definition ValidateProfiles :: "(string \<Rightarrow> bool) \<Rightarrow> Config \<Rightarrow> (int \<rightharpoonup> bool)" where
  "ValidateProfiles exists c =
     (\<lambda>i. if 0 \<le> i \<and> i < int (length (Profiles c))
          then Some (exists (Path (Profiles c ! nat i))) else None)"

section \<open>Go string primitives (package strings), on byte strings\<close>

text \<open>The numeric value of a byte, \<^verbatim>\<open>s[i]\<close> read as a \<^verbatim>\<open>uint8\<close>.\<close>

definition byte :: "char \<Rightarrow> nat" where
  "byte c = of_char c"

definition HasPrefix :: "string \<Rightarrow> string \<Rightarrow> bool" where
  "HasPrefix s pre = (length s \<ge> length pre \<and> take (length pre) s = pre)"

definition HasSuffix :: "string \<Rightarrow> string \<Rightarrow> bool" where
  "HasSuffix s suf = (length s \<ge> length suf \<and> drop (length s - length suf) s = suf)"

text \<open>\<^verbatim>\<open>strings.Index\<close>: the index of the first occurrence, \<open>-1\<close> when there is none.\<close>

fun Index :: "string \<Rightarrow> string \<Rightarrow> int" where
  "Index [] sub = (if sub = [] then 0 else -1)"
| "Index (c # cs) sub =
     (if HasPrefix (c # cs) sub then 0
      else (let r = Index cs sub in if r = -1 then -1 else r + 1))"

text \<open>\<^verbatim>\<open>strings.LastIndex\<close>: the index of the last occurrence, \<open>-1\<close> when there is none.\<close>

fun LastIndex :: "string \<Rightarrow> string \<Rightarrow> int" where
  "LastIndex [] sub = (if sub = [] then 0 else -1)"
| "LastIndex (c # cs) sub =
     (let r = LastIndex cs sub in
      if r \<noteq> -1 then r + 1 else if HasPrefix (c # cs) sub then 0 else -1)"

definition Contains :: "string \<Rightarrow> string \<Rightarrow> bool" where
  "Contains s sub = (Index s sub \<ge> 0)"

definition TrimSuffix :: "string \<Rightarrow> string \<Rightarrow> string" where
  "TrimSuffix s suf = (if HasSuffix s suf then take (length s - length suf) s else s)"

text \<open>\<^verbatim>\<open>strings.TrimLeft(s, cutset)\<close> for a cutset of ASCII bytes (the source uses \<^verbatim>\<open>" "\<close>).\<close>

definition TrimLeft :: "string \<Rightarrow> string \<Rightarrow> string" where
  "TrimLeft s cutset = dropWhile (\<lambda>c. c \<in> set cutset) s"

text \<open>
  White space as Go's \<^verbatim>\<open>unicode.IsSpace\<close> (and the table of package fmt) has it, on the
  UTF-8 bytes: the ASCII bytes 0x09..0x0D and 0x20, and the encodings of U+0085, U+00A0,
  U+1680, U+2000..U+200A, U+2028, U+2029, U+202F, U+205F and U+3000.
  \<open>space_width s\<close> is the number of bytes of the white-space character \<open>s\<close> starts with,
  and 0 when it starts with none.
\<close>

definition ascii_space :: "char \<Rightarrow> bool" where
  "ascii_space c = (byte c = 0x20 \<or> (0x09 \<le> byte c \<and> byte c \<le> 0x0D))"

fun space_width :: "string \<Rightarrow> nat" where
  "space_width [] = 0"
| "space_width (c # cs) =
     (if ascii_space c then 1
      else if byte c = 0xC2 then
        (case cs of
           d # _ \<Rightarrow> if byte d = 0x85 \<or> byte d = 0xA0 then 2 else 0
         | [] \<Rightarrow> 0)
      else if byte c = 0xE1 then
        (case cs of
           d # e # _ \<Rightarrow> if byte d = 0x9A \<and> byte e = 0x80 then 3 else 0
         | _ \<Rightarrow> 0)
      else if byte c = 0xE2 then
        (case cs of
           d # e # _ \<Rightarrow>
             if (byte d = 0x80 \<and>
                  ((0x80 \<le> byte e \<and> byte e \<le> 0x8A) \<or> byte e = 0xA8 \<or> byte e = 0xA9 \<or> byte e = 0xAF))
                \<or> (byte d = 0x81 \<and> byte e = 0x9F)
             then 3 else 0
         | _ \<Rightarrow> 0)
      else if byte c = 0xE3 then
        (case cs of
           d # e # _ \<Rightarrow> if byte d = 0x80 \<and> byte e = 0x80 then 3 else 0
         | _ \<Rightarrow> 0)
      else 0)"

text \<open>
  The width of the white-space character \<open>s\<close> ends with (0 when it ends with none), as
  \<^verbatim>\<open>utf8.DecodeLastRuneInString\<close> finds it: in every multi-byte encoding above only the
  first byte is a start byte, so the last character is one of them exactly when its bytes
  are a suffix.
\<close>

definition space_width_last :: "string \<Rightarrow> nat" where
  "space_width_last s =
     (if s = [] then 0
      else if ascii_space (last s) then 1
      else if length s \<ge> 2 \<and> space_width (drop (length s - 2) s) = 2 then 2
      else if length s \<ge> 3 \<and> space_width (drop (length s - 3) s) = 3 then 3
      else 0)"

function trimLeftSpace :: "string \<Rightarrow> string" where
  "trimLeftSpace s = (if space_width s = 0 then s else trimLeftSpace (drop (space_width s) s))"
  by pat_completeness auto
termination
proof (relation "measure length")
  show "wf (measure length)" by simp
next
  fix s :: string
  assume "space_width s \<noteq> 0"
  moreover have "s \<noteq> []" using calculation by auto
  ultimately show "(drop (space_width s) s, s) \<in> measure length" by simp
qed

function trimRightSpace :: "string \<Rightarrow> string" where
  "trimRightSpace s =
     (if space_width_last s = 0 then s
      else trimRightSpace (take (length s - space_width_last s) s))"
  by pat_completeness auto
termination
proof (relation "measure length")
  show "wf (measure length)" by simp
next
  fix s :: string
  assume "space_width_last s \<noteq> 0"
  moreover have "s \<noteq> []" using calculation by (auto simp: space_width_last_def)
  ultimately show "(take (length s - space_width_last s) s, s) \<in> measure length" by simp
qed

declare trimLeftSpace.simps [simp del] trimRightSpace.simps [simp del]

text \<open>\<^verbatim>\<open>strings.TrimSpace\<close>: leading, then trailing white space removed.\<close>

definition TrimSpace :: "string \<Rightarrow> string" where
  "TrimSpace s = trimRightSpace (trimLeftSpace s)"

section \<open>External VPN tool interface (internal/openvpn)\<close>

text \<open>
  \<^verbatim>\<open>type Session struct { Path, ConfigName, Created, Owner, Status, Device, ConnectedTo string }\<close>.
  The field \<^verbatim>\<open>Path\<close> is called \<open>SPath\<close> here, since \<open>Path\<close> is the profile's field.
\<close>

record Session =
  SPath :: string
  ConfigName :: string
  Created :: string
  Owner :: string
  Status :: string
  Device :: string
  ConnectedTo :: string

record SessionStats =
  BytesIn :: string
  BytesOut :: string
  PacketsIn :: string
  PacketsOut :: string
  TunnelIP :: string
  TunnelIPv6 :: string
  Connected :: string

text \<open>The zero value \<^verbatim>\<open>Session{}\<close>.\<close>

definition emptySession :: Session where
  "emptySession = \<lparr>SPath = [], ConfigName = [], Created = [], Owner = [], Status = [],
                    Device = [], ConnectedTo = []\<rparr>"

subsection \<open>extractValue\<close>

text \<open>
  The test made at a space of \<^verbatim>\<open>rest\<close>, on \<^verbatim>\<open>rest[i:]\<close>:
  \<^verbatim>\<open>trimmed := strings.TrimLeft(rest[i:], " ")
  if len(trimmed) > 0 && trimmed[0] >= 'A' && trimmed[0] <= 'Z' {
      if colonIdx := strings.Index(trimmed, ":"); colonIdx > 0 && colonIdx < 20 { ... } }\<close>
\<close>

definition atNewField :: "string \<Rightarrow> bool" where
  "atNewField tail =
     (let trimmed = TrimLeft tail '' '' in
      if length trimmed > 0 \<and> byte (hd trimmed) \<ge> byte (CHR ''A'') \<and> byte (hd trimmed) \<le> byte (CHR ''Z'')
      then (let colonIdx = Index trimmed '':'' in colonIdx > 0 \<and> colonIdx < 20)
      else False)"

text \<open>
  The loop \<^verbatim>\<open>for i := 0; i < len(rest)-1; i++\<close>, started at \<open>i\<close>; its value is the final
  content of the variable \<^verbatim>\<open>value\<close> (\<^verbatim>\<open>rest[:i]\<close> at the break, \<^verbatim>\<open>rest\<close> otherwise).
\<close>

function extractLoop :: "string \<Rightarrow> nat \<Rightarrow> string" where
  "extractLoop rest i =
     (if int i < int (length rest) - 1 then
        (if rest ! i = CHR '' '' \<and> i > 0 \<and> atNewField (drop i rest) then take i rest
         else extractLoop rest (Suc i))
      else rest)"
  by pat_completeness auto
termination
  by (relation "measure (\<lambda>(rest, i). length rest - i)") auto

declare extractLoop.simps [simp del]

definition extractValue :: "string \<Rightarrow> string \<Rightarrow> string" where
  "extractValue line key =
     (let idx = Index line key in
      if idx = -1 then []
      else (let rest = drop (nat (idx + int (length key))) line in
            TrimSpace (extractLoop rest 0)))"

subsection \<open>parseSessionsList\<close>

text \<open>
  \<^verbatim>\<open>bufio.Scanner\<close> with the default split function \<^verbatim>\<open>ScanLines\<close>: the input is cut at
  every newline, a last line without a newline counts when it is not empty, one trailing
  carriage return is dropped from each line, and scanning stops (with \<^verbatim>\<open>ErrTooLong\<close>, which
  the source does not look at) at the first line that does not fit the 64 KiB buffer.
\<close>

fun splitLines :: "string \<Rightarrow> string \<Rightarrow> string list" where
  "splitLines acc [] = (if acc = [] then [] else [rev acc])"
| "splitLines acc (c # cs) =
     (if c = CHR 0x0A then rev acc # splitLines [] cs else splitLines (c # acc) cs)"

definition dropCR :: "string \<Rightarrow> string" where
  "dropCR l = (if l \<noteq> [] \<and> last l = CHR 0x0D then butlast l else l)"

definition scanLines :: "string \<Rightarrow> string list" where
  "scanLines output = map dropCR (takeWhile (\<lambda>l. length l < 65536) (splitLines [] output))"

text \<open>
  The post-processing of a config name, inline in the source:
  \<^verbatim>\<open>if idx := strings.Index(configName, "(Config not available)"); idx != -1 {
      configName = strings.TrimSpace(configName[:idx]) }
  if lastSlash := strings.LastIndex(configName, "/"); lastSlash != -1 {
      configName = configName[lastSlash+1:] }
  configName = strings.TrimSuffix(configName, ".ovpn")\<close>
\<close>

definition cleanConfigName :: "string \<Rightarrow> string" where
  "cleanConfigName configName =
     (let idx = Index configName ''(Config not available)'';
          configName1 = (if idx \<noteq> -1 then TrimSpace (take (nat idx) configName) else configName);
          lastSlash = LastIndex configName1 ''/'';
          configName2 = (if lastSlash \<noteq> -1 then drop (nat (lastSlash + 1)) configName1 else configName1)
      in TrimSuffix configName2 ''.ovpn'')"

text \<open>The chain of \<^verbatim>\<open>if strings.Contains(line, ...)\<close> applied to the current session.\<close>

definition parseFields :: "Session \<Rightarrow> string \<Rightarrow> Session" where
  "parseFields current line =
     (let c1 = (if Contains line ''Created:'' then current\<lparr>Created := extractValue line ''Created:''\<rparr> else current);
          c2 = (if Contains line ''Owner:'' then c1\<lparr>Owner := extractValue line ''Owner:''\<rparr> else c1);
          c3 = (if Contains line ''Device:'' then c2\<lparr>Device := extractValue line ''Device:''\<rparr> else c2);
          c4 = (if Contains line ''Config name:''
                then c3\<lparr>ConfigName := cleanConfigName (extractValue line ''Config name:'')\<rparr> else c3);
          c5 = (if Contains line ''Connected to:''
                then c4\<lparr>ConnectedTo := extractValue line ''Connected to:''\<rparr> else c4)
      in (if Contains line ''Status:'' then c5\<lparr>Status := extractValue line ''Status:''\<rparr> else c5))"

text \<open>One round of the scanner loop on the pair (\<^verbatim>\<open>sessions\<close>, \<^verbatim>\<open>current\<close>).\<close>

definition parseLine :: "Session list \<times> Session option \<Rightarrow> string \<Rightarrow> Session list \<times> Session option" where
  "parseLine st line =
     (case st of (sessions, current) \<Rightarrow>
        if HasPrefix (TrimSpace line) ''---'' then (sessions, current)
        else if Contains line ''Path:'' then
          ((case current of Some c \<Rightarrow> sessions @ [c] | None \<Rightarrow> sessions),
           Some (emptySession\<lparr>SPath := extractValue line ''Path:''\<rparr>))
        else (case current of
                Some c \<Rightarrow> (sessions, Some (parseFields c line))
              | None \<Rightarrow> (sessions, None)))"

definition parseSessionsList :: "string \<Rightarrow> Session list" where
  "parseSessionsList output =
     (case foldl parseLine ([], None) (scanLines output) of
        (sessions, Some c) \<Rightarrow> sessions @ [c]
      | (sessions, None) \<Rightarrow> sessions)"

subsection \<open>formatBytes\<close>

text \<open>
  \<^verbatim>\<open>fmt.Sscanf(bytesStr, "%d", &bytes)\<close> into an \<^verbatim>\<open>int64\<close>. The scanner skips leading white
  space (a newline there is an error), accepts one sign, then a non-empty run of the
  digits \<^verbatim>\<open>0123456789\<close>, and hands the token to \<^verbatim>\<open>strconv.ParseInt(tok, 10, 64)\<close>, which
  refuses a value outside the 64-bit range. Whatever follows the token is ignored. Every
  failure leaves the variable untouched; the source ignores the error.
  (The scanner's limit of \<open>2^30\<close> characters per argument is not modelled.)
\<close>

function skipSpace :: "string \<Rightarrow> string option" where
  "skipSpace s =
     (case s of
        [] \<Rightarrow> Some []
      | c # cs \<Rightarrow>
          if c = CHR 0x0D \<and> HasPrefix cs [CHR 0x0A] then skipSpace cs
          else if c = CHR 0x0A then None
          else if space_width s = 0 then Some s
          else skipSpace (drop (space_width s) s))"
  by pat_completeness auto
termination
proof (relation "measure length")
  show "wf (measure length)" by simp
next
  fix s :: string and c cs
  assume "s = c # cs"
  then show "(cs, s) \<in> measure length" by simp
next
  fix s :: string and c cs
  assume "s = c # cs" "space_width s \<noteq> 0"
  then show "(drop (space_width s) s, s) \<in> measure length" by simp
qed

declare skipSpace.simps [simp del]

definition isDigit :: "char \<Rightarrow> bool" where
  "isDigit c = (byte (CHR ''0'') \<le> byte c \<and> byte c \<le> byte (CHR ''9''))"

definition digitsValue :: "string \<Rightarrow> int" where
  "digitsValue ds = foldl (\<lambda>a c. 10 * a + (int (byte c) - 48)) 0 ds"

definition ParseInt :: "string \<Rightarrow> int option" where
  "ParseInt s =
     (if s = [] then None
      else (let neg = (hd s = CHR ''-'');
                body = (if hd s = CHR ''+'' \<or> hd s = CHR ''-'' then tl s else s)
            in if body = [] \<or> \<not> list_all isDigit body then None
               else (let un = digitsValue body
                     in if \<not> neg \<and> un \<ge> 2 ^ 63 then None
                        else if neg \<and> un > 2 ^ 63 then None
                        else Some (if neg then - un else un))))"

definition scanInt :: "string \<Rightarrow> int option" where
  "scanInt s =
     (case skipSpace s of
        None \<Rightarrow> None
      | Some r \<Rightarrow>
          if r = [] then None
          else (let signTok = (if hd r = CHR ''+'' \<or> hd r = CHR ''-'' then [hd r] else []);
                    r1 = drop (length signTok) r
                in if r1 = [] then None
                   else if \<not> isDigit (hd r1) then None
                   else ParseInt (signTok @ takeWhile isDigit r1)))"

text \<open>\<^verbatim>\<open>fmt.Sprintf("%d", n)\<close>.\<close>

definition digitChar :: "int \<Rightarrow> char" where
  "digitChar d = char_of (nat (48 + d))"

text \<open>The decimal digits of a non-negative number.\<close>

function showNat :: "int \<Rightarrow> string" where
  "showNat n = (if n < 10 then [digitChar n] else showNat (n div 10) @ [digitChar (n mod 10)])"
  by pat_completeness auto
termination
  by (relation "measure nat") auto

declare showNat.simps [simp del]

definition showInt :: "int \<Rightarrow> string" where
  "showInt n = (if n < 0 then CHR ''-'' # showNat (- n) else showNat n)"

text \<open>
  \<^verbatim>\<open>float64(bytes)\<close> for \<open>0 \<le> bytes < 2^63\<close>: the nearest number with 53 significant bits,
  ties to the even one. All these numbers are integers, so the result is given as one.
\<close>

function bitLength :: "int \<Rightarrow> nat" where
  "bitLength n = (if n \<le> 0 then 0 else Suc (bitLength (n div 2)))"
  by pat_completeness auto
termination
  by (relation "measure nat") auto

declare bitLength.simps [simp del]

definition float64 :: "int \<Rightarrow> int" where
  "float64 b =
     (if bitLength b \<le> 53 then b
      else (let sh = bitLength b - 53;
                q = b div 2 ^ sh;
                r = b mod 2 ^ sh;
                half = 2 ^ (sh - 1)
            in (if r > half \<or> (r = half \<and> odd q) then q + 1 else q) * 2 ^ sh))"

text \<open>
  \<^verbatim>\<open>fmt.Sprintf("%.2f", x)\<close> for the non-negative \<open>x = num / den\<close>: the exact value rounded
  to hundredths, a tie going to the even digit (package strconv converts the binary
  number to its exact decimal expansion before rounding).
\<close>

definition hundredths :: "int \<Rightarrow> int \<Rightarrow> int" where
  "hundredths num den =
     (let q = (100 * num) div den; r = (100 * num) mod den
      in if 2 * r > den \<or> (2 * r = den \<and> odd q) then q + 1 else q)"

definition twoDecimals :: "int \<Rightarrow> string" where
  "twoDecimals n =
     showNat (n div 100) @ ''.'' @ [digitChar (n mod 100 div 10), digitChar (n mod 10)]"

definition sprintf2f :: "int \<Rightarrow> int \<Rightarrow> string" where
  "sprintf2f num den = twoDecimals (hundredths num den)"

definition KB :: int where "KB = 1024"
definition MB :: int where "MB = KB * 1024"
definition GB :: int where "GB = MB * 1024"

definition formatBytes :: "string \<Rightarrow> string" where
  "formatBytes bytesStr =
     (let bytes = (case scanInt bytesStr of Some v \<Rightarrow> v | None \<Rightarrow> 0) in
      if bytes \<ge> GB then sprintf2f (float64 bytes) GB @ '' GB''
      else if bytes \<ge> MB then sprintf2f (float64 bytes) MB @ '' MB''
      else if bytes \<ge> KB then sprintf2f (float64 bytes) KB @ '' KB''
      else showInt bytes @ '' B'')"

section \<open>Interactive state machine (internal/ui)\<close>

datatype View = ViewProfiles | ViewSessions

datatype InputMode = InputNone | InputProfilePath | InputProfileName

text \<open>
  \<^verbatim>\<open>PathCompleter\<close>; \<^verbatim>\<open>maxSuggestions\<close> is only read by \<^verbatim>\<open>getSuggestions\<close>, which lists a
  directory of the file system and is a parameter of the model (\<open>suggest\<close> below).
\<close>

record PathCompleter =
  suggestions :: "string list"
  selectedIndex :: int

definition NewPathCompleter :: PathCompleter where
  "NewPathCompleter = \<lparr>suggestions = [], selectedIndex = -1\<rparr>"

definition Clear :: "PathCompleter \<Rightarrow> PathCompleter" where
  "Clear c = c\<lparr>suggestions := [], selectedIndex := -1\<rparr>"

definition HasSuggestions :: "PathCompleter \<Rightarrow> bool" where
  "HasSuggestions c = (length (suggestions c) > 0)"

definition SelectNext :: "PathCompleter \<Rightarrow> PathCompleter" where
  "SelectNext c =
     (if length (suggestions c) = 0 then c
      else (let i = selectedIndex c + 1
            in c\<lparr>selectedIndex := (if i \<ge> int (length (suggestions c)) then 0 else i)\<rparr>))"

definition SelectPrev :: "PathCompleter \<Rightarrow> PathCompleter" where
  "SelectPrev c =
     (if length (suggestions c) = 0 then c
      else (let i = selectedIndex c - 1
            in c\<lparr>selectedIndex := (if i < 0 then int (length (suggestions c)) - 1 else i)\<rparr>))"

definition GetSelected :: "PathCompleter \<Rightarrow> string" where
  "GetSelected c =
     (if selectedIndex c \<ge> 0 \<and> selectedIndex c < int (length (suggestions c))
      then suggestions c ! nat (selectedIndex c) else [])"

text \<open>
  What the state machine asks of its surroundings, as parameters: the result of
  \<^verbatim>\<open>config.Save()\<close> (\<open>None\<close> is \<^verbatim>\<open>nil\<close>, otherwise the error's text), \<^verbatim>\<open>os.Stat\<close>,
  \<^verbatim>\<open>os.UserHomeDir()\<close>, \<^verbatim>\<open>PathCompleter.getSuggestions\<close>, and the text-input component of
  the bubbles library, whose state is of an arbitrary type \<open>'ti\<close>.
\<close>

record 'ti Env =
  saveError :: "string option"
  fileExists :: "string \<Rightarrow> bool"
  homeDir :: "string option"
  suggest :: "string \<Rightarrow> string list"
  tiValue :: "'ti \<Rightarrow> string"
  tiSetValue :: "string \<Rightarrow> 'ti \<Rightarrow> 'ti"
  tiSetPlaceholder :: "string \<Rightarrow> 'ti \<Rightarrow> 'ti"
  tiCursorEnd :: "'ti \<Rightarrow> 'ti"
  tiFocus :: "'ti \<Rightarrow> 'ti"
  tiUpdate :: "string \<Rightarrow> 'ti \<Rightarrow> 'ti"

definition completerUpdate :: "'ti Env \<Rightarrow> PathCompleter \<Rightarrow> string \<Rightarrow> PathCompleter" where
  "completerUpdate env c input = c\<lparr>suggestions := suggest env input, selectedIndex := -1\<rparr>"

text \<open>
  \<^verbatim>\<open>Model\<close>. The fields \<^verbatim>\<open>client\<close> (stateless), \<^verbatim>\<open>spinner\<close> and \<^verbatim>\<open>styles\<close> (animation frame
  and colours of the rendering) are left out. \<^verbatim>\<open>config\<close> and \<^verbatim>\<open>completer\<close> are pointers in
  the source; the program holds one model at a time, so their targets are part of it.
\<close>

record 'ti Model =
  config :: Config
  sessions :: "Session list"
  currentView :: View
  profileCursor :: int
  sessionCursor :: int
  profileValid :: "int \<rightharpoonup> bool"
  selectedStats :: "SessionStats option"
  loading :: bool
  loadingMsg :: string
  inputMode :: InputMode
  textInput :: 'ti
  newProfile :: Profile
  completer :: PathCompleter
  statusMsg :: string
  errorMsg :: string
  width :: int
  height :: int

text \<open>The messages of the event loop; an \<^verbatim>\<open>error\<close> is \<open>None\<close> for \<^verbatim>\<open>nil\<close>, else its text.\<close>

datatype Msg =
    SpinnerTickMsg
  | KeyMsg string
  | WindowSizeMsg int int
  | SessionRefreshMsg "Session list" "string option"
  | StatsRefreshMsg "SessionStats option" "string option"
  | ConnectMsg "string option"
  | DisconnectMsg "string option"
  | ThemeChangedMsg
  | OtherMsg

text \<open>
  The commands (tasks) an update hands to the runtime. \<^verbatim>\<open>tea.Batch(c1, ..., cn)\<close> is the
  list of its commands, \<^verbatim>\<open>nil\<close> the empty list.
\<close>

datatype Cmd =
    Quit
  | SpinnerTick
  | SpinnerCmd
  | RefreshSessions
  | FetchStats string
  | ConnectCmd string
  | DisconnectCmd string
  | WatchTheme
  | Blink
  | TextInputCmd

text \<open>A slice read out of range panics.\<close>

datatype panic = IndexOutOfRange

definition at :: "'a list \<Rightarrow> int \<Rightarrow> panic + 'a" where
  "at xs i = (if 0 \<le> i \<and> i < int (length xs) then Inr (xs ! nat i) else Inl IndexOutOfRange)"

text \<open>\<^verbatim>\<open>m.profileValid[i]\<close>: a key that is not in the map reads as \<^verbatim>\<open>false\<close>.\<close>

definition validAt :: "'ti Model \<Rightarrow> int \<Rightarrow> bool" where
  "validAt m i = (case profileValid m i of Some b \<Rightarrow> b | None \<Rightarrow> False)"

definition NewModel :: "'ti \<Rightarrow> (string \<Rightarrow> bool) \<Rightarrow> Config \<Rightarrow> 'ti Model" where
  "NewModel ti exists cfg =
     \<lparr>config = cfg, sessions = [], currentView = ViewProfiles, profileCursor = 0,
      sessionCursor = 0, profileValid = ValidateProfiles exists cfg, selectedStats = None,
      loading = True, loadingMsg = ''Fetching sessions...'', inputMode = InputNone,
      textInput = ti, newProfile = \<lparr>Name = [], Path = []\<rparr>, completer = NewPathCompleter,
      statusMsg = [], errorMsg = [], width = 0, height = 0\<rparr>"

definition clearMessages :: "'ti Model \<Rightarrow> 'ti Model" where
  "clearMessages m = m\<lparr>statusMsg := [], errorMsg := []\<rparr>"

definition moveCursorUp :: "'ti Model \<Rightarrow> 'ti Model" where
  "moveCursorUp m =
     (if currentView m = ViewProfiles
      then (if profileCursor m > 0 then m\<lparr>profileCursor := profileCursor m - 1\<rparr> else m)
      else (if sessionCursor m > 0 then m\<lparr>sessionCursor := sessionCursor m - 1\<rparr> else m))
     \<lparr>selectedStats := None\<rparr>"

definition moveCursorDown :: "'ti Model \<Rightarrow> 'ti Model" where
  "moveCursorDown m =
     (if currentView m = ViewProfiles
      then (if profileCursor m < int (length (Profiles (config m))) - 1
            then m\<lparr>profileCursor := profileCursor m + 1\<rparr> else m)
      else (if sessionCursor m < int (length (sessions m)) - 1
            then m\<lparr>sessionCursor := sessionCursor m + 1\<rparr> else m))
     \<lparr>selectedStats := None\<rparr>"

text \<open>
  \<^verbatim>\<open>for _, session := range m.sessions { if session.ConfigName == profileName { return true } }
  return false\<close>
\<close>

fun sessionNamed :: "Session list \<Rightarrow> string \<Rightarrow> bool" where
  "sessionNamed [] profileName = False"
| "sessionNamed (session # rest) profileName =
     (if ConfigName session = profileName then True else sessionNamed rest profileName)"

definition isProfileConnected :: "'ti Model \<Rightarrow> string \<Rightarrow> bool" where
  "isProfileConnected m profilePath =
     (let lastSlash = LastIndex profilePath ''/'';
          profileName = (if lastSlash \<noteq> -1 then drop (nat (lastSlash + 1)) profilePath
                         else profilePath)
      in sessionNamed (sessions m) (TrimSuffix profileName ''.ovpn''))"

definition startAddProfile :: "'ti Env \<Rightarrow> 'ti Model \<Rightarrow> 'ti Model \<times> Cmd list" where
  "startAddProfile env m =
     (clearMessages
        (m\<lparr>inputMode := InputProfilePath,
           textInput := tiFocus env (tiSetPlaceholder env ''Enter path to .ovpn file''
                          (tiSetValue env [] (textInput m)))\<rparr>),
      [Blink])"

definition handleEnter :: "'ti Model \<Rightarrow> panic + 'ti Model \<times> Cmd list" where
  "handleEnter m0 =
     (let m = clearMessages m0 in
      if currentView m = ViewProfiles then
        (if length (Profiles (config m)) = 0 then Inr (m, [])
         else if \<not> validAt m (profileCursor m)
         then Inr (m\<lparr>errorMsg := ''Config file not found''\<rparr>, [])
         else (case at (Profiles (config m)) (profileCursor m) of
                 Inl e \<Rightarrow> Inl e
               | Inr profile \<Rightarrow>
                   if isProfileConnected m (Path profile)
                   then Inr (m\<lparr>errorMsg := [CHR 0x27] @ Name profile @ [CHR 0x27] @ '' is already connected''\<rparr>, [])
                   else Inr (m\<lparr>statusMsg := ''Connecting to '' @ Name profile @ ''...'',
                               loading := True, loadingMsg := ''Connecting...''\<rparr>,
                             [SpinnerTick, ConnectCmd (Path profile)])))
      else
        (if length (sessions m) > 0 then
           (case at (sessions m) (sessionCursor m) of
              Inl e \<Rightarrow> Inl e
            | Inr session \<Rightarrow>
                Inr (m\<lparr>loading := True, loadingMsg := ''Fetching stats...''\<rparr>,
                     [SpinnerTick, FetchStats (SPath session)]))
         else Inr (m, [])))"

definition handleDelete :: "'ti Env \<Rightarrow> 'ti Model \<Rightarrow> panic + 'ti Model \<times> Cmd list" where
  "handleDelete env m0 =
     (let m = clearMessages m0 in
      if currentView m = ViewProfiles then
        (if length (Profiles (config m)) > 0 then
           (case at (Profiles (config m)) (profileCursor m) of
              Inl e \<Rightarrow> Inl e
            | Inr p \<Rightarrow>
                (let name = Name p;
                     cfg = RemoveProfile (config m) (profileCursor m);
                     m1 = (case saveError env of
                             Some err \<Rightarrow> m\<lparr>config := cfg, errorMsg := ''Failed to save config: '' @ err\<rparr>
                           | None \<Rightarrow> m\<lparr>config := cfg, statusMsg := ''Removed profile: '' @ name\<rparr>);
                     m2 = m1\<lparr>profileValid := ValidateProfiles (fileExists env) cfg\<rparr>;
                     m3 = (if profileCursor m2 \<ge> int (length (Profiles cfg))
                           then m2\<lparr>profileCursor := max 0 (int (length (Profiles cfg)) - 1)\<rparr>
                           else m2)
                 in Inr (m3, [])))
         else Inr (m, []))
      else
        (if length (sessions m) > 0 then
           (case at (sessions m) (sessionCursor m) of
              Inl e \<Rightarrow> Inl e
            | Inr session \<Rightarrow> Inr (m\<lparr>statusMsg := ''Disconnecting...''\<rparr>, [DisconnectCmd (SPath session)]))
         else Inr (m, [])))"

text \<open>The two tab-completion cases of \<^verbatim>\<open>handleInputMode\<close>, with the selection step given.\<close>

definition completeWith :: "'ti Env \<Rightarrow> (PathCompleter \<Rightarrow> PathCompleter) \<Rightarrow> 'ti Model \<Rightarrow> 'ti Model" where
  "completeWith env select m =
     (if inputMode m = InputProfilePath \<and> HasSuggestions (completer m) then
        (let c = select (completer m); selected = GetSelected c in
         if selected \<noteq> [] then
           m\<lparr>textInput := tiCursorEnd env (tiSetValue env selected (textInput m)),
             completer := completerUpdate env c selected\<rparr>
         else m\<lparr>completer := c\<rparr>)
      else m)"

text \<open>The end of \<^verbatim>\<open>handleInputMode\<close>: the key goes to the text input.\<close>

definition forwardKey :: "'ti Env \<Rightarrow> 'ti Model \<Rightarrow> string \<Rightarrow> 'ti Model \<times> Cmd list" where
  "forwardKey env m key =
     (let m1 = m\<lparr>textInput := tiUpdate env key (textInput m)\<rparr>;
          m2 = (if inputMode m1 = InputProfilePath
                then m1\<lparr>completer := completerUpdate env (completer m1) (tiValue env (textInput m1))\<rparr>
                else m1)
      in (m2, [TextInputCmd]))"

definition handleInputMode :: "'ti Env \<Rightarrow> 'ti Model \<Rightarrow> string \<Rightarrow> 'ti Model \<times> Cmd list" where
  "handleInputMode env m key =
     (if key = ''esc'' then
        (m\<lparr>inputMode := InputNone, newProfile := \<lparr>Name = [], Path = []\<rparr>,
           completer := Clear (completer m)\<rparr>, [])
      else if key = ''tab'' then (completeWith env SelectNext m, [])
      else if key = ''shift+tab'' then (completeWith env SelectPrev m, [])
      else if key = ''enter'' then
        (let val = TrimSpace (tiValue env (textInput m)) in
         if val = [] then (m, [])
         else if inputMode m = InputProfilePath then
           (let expandedPath =
                  (if HasPrefix val ''~''
                   then (case homeDir env of Some home \<Rightarrow> home @ drop 1 val | None \<Rightarrow> val)
                   else val)
            in (m\<lparr>newProfile := (newProfile m)\<lparr>Path := expandedPath\<rparr>,
                  inputMode := InputProfileName,
                  textInput := tiSetPlaceholder env ''Enter a friendly name''
                                 (tiSetValue env [] (textInput m)),
                  completer := Clear (completer m)\<rparr>, []))
         else if inputMode m = InputProfileName then
           (let np = (newProfile m)\<lparr>Name := val\<rparr>;
                cfg = AddProfile (config m) (Name np) (Path np);
                m1 = (case saveError env of
                        Some err \<Rightarrow> m\<lparr>config := cfg, errorMsg := ''Failed to save config: '' @ err\<rparr>
                      | None \<Rightarrow> m\<lparr>config := cfg, statusMsg := ''Added profile: '' @ Name np\<rparr>)
            in (m1\<lparr>profileValid := ValidateProfiles (fileExists env) cfg,
                   inputMode := InputNone, newProfile := \<lparr>Name = [], Path = []\<rparr>,
                   completer := Clear (completer m)\<rparr>, []))
         else forwardKey env m key)
      else forwardKey env m key)"

text \<open>The \<^verbatim>\<open>tea.KeyMsg\<close> case of \<^verbatim>\<open>Update\<close>, on \<^verbatim>\<open>msg.String()\<close>.\<close>

definition updateKey :: "'ti Env \<Rightarrow> 'ti Model \<Rightarrow> string \<Rightarrow> panic + 'ti Model \<times> Cmd list" where
  "updateKey env m key =
     (if inputMode m \<noteq> InputNone then Inr (handleInputMode env m key)
      else if key = ''q'' \<or> key = ''ctrl+c'' then Inr (m, [Quit])
      else if key = ''tab'' then
        Inr (clearMessages
               (m\<lparr>currentView := (if currentView m = ViewProfiles then ViewSessions else ViewProfiles)\<rparr>),
             [])
      else if key = ''up'' \<or> key = ''k'' then Inr (moveCursorUp m, [])
      else if key = ''down'' \<or> key = ''j'' then Inr (moveCursorDown m, [])
      else if key = ''enter'' then handleEnter m
      else if key = ''a'' then
        (if currentView m = ViewProfiles then Inr (startAddProfile env m) else Inr (m, []))
      else if key = ''d'' \<or> key = ''delete'' then handleDelete env m
      else if key = ''r'' then
        Inr ((clearMessages m)\<lparr>loading := True, loadingMsg := ''Refreshing sessions...''\<rparr>,
             [SpinnerTick, RefreshSessions])
      else if key = ''s'' then
        (if currentView m = ViewSessions \<and> length (sessions m) > 0 then
           (case at (sessions m) (sessionCursor m) of
              Inl e \<Rightarrow> Inl e
            | Inr session \<Rightarrow>
                Inr (m\<lparr>loading := True, loadingMsg := ''Fetching stats...''\<rparr>,
                     [SpinnerTick, FetchStats (SPath session)]))
         else Inr (m, []))
      else Inr (m, []))"

definition Update :: "'ti Env \<Rightarrow> 'ti Model \<Rightarrow> Msg \<Rightarrow> panic + 'ti Model \<times> Cmd list" where
  "Update env m msg =
     (case msg of
        SpinnerTickMsg \<Rightarrow> Inr (m, [SpinnerCmd])
      | KeyMsg key \<Rightarrow> updateKey env m key
      | WindowSizeMsg w h \<Rightarrow> Inr (m\<lparr>width := w, height := h\<rparr>, [])
      | SessionRefreshMsg ss err \<Rightarrow>
          (case err of
             Some e \<Rightarrow> Inr (m\<lparr>loading := False, errorMsg := ''Failed to fetch sessions: '' @ e\<rparr>, [])
           | None \<Rightarrow>
               (let m1 = m\<lparr>loading := False, sessions := ss\<rparr>
                in Inr (if sessionCursor m1 \<ge> int (length (sessions m1))
                        then m1\<lparr>sessionCursor := max 0 (int (length (sessions m1)) - 1)\<rparr>
                        else m1, [])))
      | StatsRefreshMsg stats err \<Rightarrow>
          (case err of
             Some e \<Rightarrow> Inr (m\<lparr>loading := False, errorMsg := ''Failed to fetch stats: '' @ e\<rparr>, [])
           | None \<Rightarrow> Inr (m\<lparr>loading := False, selectedStats := stats\<rparr>, []))
      | ConnectMsg err \<Rightarrow>
          (case err of
             Some e \<Rightarrow> Inr (m\<lparr>loading := False, errorMsg := ''Connection failed: '' @ e\<rparr>, [])
           | None \<Rightarrow>
               Inr (m\<lparr>statusMsg := ''Connected successfully!'', loading := True,
                      loadingMsg := ''Refreshing sessions...''\<rparr>,
                    [SpinnerTick, RefreshSessions]))
      | DisconnectMsg err \<Rightarrow>
          (case err of
             Some e \<Rightarrow> Inr (m\<lparr>loading := False, errorMsg := ''Disconnect failed: '' @ e\<rparr>, [])
           | None \<Rightarrow>
               Inr (m\<lparr>statusMsg := ''Disconnected successfully!'', selectedStats := None,
                      loading := True, loadingMsg := ''Refreshing sessions...''\<rparr>,
                    [SpinnerTick, RefreshSessions]))
      | ThemeChangedMsg \<Rightarrow> Inr (m, [WatchTheme])
      | OtherMsg \<Rightarrow> Inr (m, []))"

text \<open>
  The message lines of \<^verbatim>\<open>View\<close>, in the order they are written; in an input mode \<^verbatim>\<open>View\<close>
  returns before them.
\<close>

definition viewMessages :: "'ti Model \<Rightarrow> string list" where
  "viewMessages m =
     (if inputMode m \<noteq> InputNone then []
      else (if errorMsg m \<noteq> [] then [errorMsg m] else []) @
           (if statusMsg m \<noteq> [] then [statusMsg m] else []))"

text \<open>The event loop: the messages applied in order, from a model; a panic ends it.\<close>

fun run :: "'ti Env \<Rightarrow> 'ti Model \<Rightarrow> Msg list \<Rightarrow> panic + 'ti Model" where
  "run env m [] = Inr m"
| "run env m (msg # msgs) =
     (case Update env m msg of Inl e \<Rightarrow> Inl e | Inr (m', cmds) \<Rightarrow> run env m' msgs)"

section \<open>Notions of the specification\<close>

text \<open>
  The final path segment of a path, in the specification's words: what follows the last
  \<open>/\<close>, the whole path when it has none.
\<close>

definition finalSegment :: "string \<Rightarrow> string" where
  "finalSegment p = rev (takeWhile (\<lambda>c. c \<noteq> CHR ''/'') (rev p))"

text \<open>
  A field boundary of the session listing, in the specification's words: a run of
  white space followed by an upper-case-initial token with a colon within the next 20
  characters. \<open>fieldBoundary rest i\<close>: position \<open>i\<close> of \<open>rest\<close> (the text after a key) is a
  space, other than the text's first character, and what follows the spaces from there is
  such a token. \<open>firstBoundary\<close> is the first such position.
\<close>

definition isUpper :: "char \<Rightarrow> bool" where
  "isUpper c = (65 \<le> byte c \<and> byte c \<le> 90)"

definition fieldBoundary :: "string \<Rightarrow> nat \<Rightarrow> bool" where
  "fieldBoundary rest i =
     (0 < i \<and> i < length rest \<and> rest ! i = CHR '' '' \<and>
      (let tok = dropWhile (\<lambda>c. c = CHR '' '') (drop i rest)
       in tok \<noteq> [] \<and> isUpper (hd tok) \<and> CHR '':'' \<in> set (take 20 tok)))"

definition firstBoundary :: "string \<Rightarrow> nat option" where
  "firstBoundary rest = find (fieldBoundary rest) [0..<length rest]"

text \<open>
  A string begins with a decimal integer, after optional leading white space: what is left
  when the white space is removed starts with a digit, or with a sign and a digit.
\<close>

definition beginsWithInteger :: "string \<Rightarrow> bool" where
  "beginsWithInteger s =
     (let r = trimLeftSpace s;
          d = (if r \<noteq> [] \<and> (hd r = CHR ''+'' \<or> hd r = CHR ''-'') then tl r else r)
      in d \<noteq> [] \<and> isDigit (hd d))"

text \<open>
  The largest 1024-based unit of a byte count, in the specification's words: the last of
  B, KB, MB, GB whose size \<open>1024^k\<close> does not exceed the count (B for a count of 0).
\<close>

definition unitNames :: "string list" where
  "unitNames = [''B'', ''KB'', ''MB'', ''GB'']"

definition largestUnit :: "int \<Rightarrow> nat" where
  "largestUnit b = last (filter (\<lambda>k. (1024 :: int) ^ k \<le> max b 1) [0, 1, 2, 3])"

text \<open>
  The stored config name, in the specification's words: the raw value with a trailing
  \<open>(Config not available)\<close> stripped and the surrounding white space trimmed, reduced to its
  final path segment, with a trailing \<open>.ovpn\<close> removed.
\<close>

definition specConfigName :: "string \<Rightarrow> string" where
  "specConfigName raw =
     TrimSuffix (finalSegment (TrimSpace (TrimSuffix raw ''(Config not available)''))) ''.ovpn''"

text \<open>
  The cursor bound of the specification: \<open>0 \<le> cursor < L\<close>, or \<open>cursor = 0\<close> when
  \<open>L = 0\<close>; and the bound for both cursors of a model, each against its own list.
\<close>

definition cursorOK :: "int \<Rightarrow> nat \<Rightarrow> bool" where
  "cursorOK c n = ((0 \<le> c \<and> c < int n) \<or> (n = 0 \<and> c = 0))"

definition cursorInv :: "'ti Model \<Rightarrow> bool" where
  "cursorInv m = (cursorOK (profileCursor m) (length (Profiles (config m))) \<and>
                  cursorOK (sessionCursor m) (length (sessions m)))"

section \<open>A concrete environment for the scenarios\<close>

text \<open>
  Saving succeeds, the home directory is \<open>/home/u\<close>, no completion is suggested, and the
  text input is its text: a key appends its characters. Which files exist is a parameter.
\<close>

definition demoEnv :: "(string \<Rightarrow> bool) \<Rightarrow> string Env" where
  "demoEnv exists =
     \<lparr>saveError = None, fileExists = exists, homeDir = Some ''/home/u'',
      suggest = (\<lambda>input. []), tiValue = (\<lambda>t. t), tiSetValue = (\<lambda>v t. v),
      tiSetPlaceholder = (\<lambda>p t. t), tiCursorEnd = (\<lambda>t. t), tiFocus = (\<lambda>t. t),
      tiUpdate = (\<lambda>key t. t @ key)\<rparr>"

section \<open>Properties of the profile store\<close>

text \<open>
  Claim C9. Removing a profile at an index that is out of bounds (negative, or at least the
  length of the list) leaves the configuration unchanged. Removing at an in-bounds index
  shortens the list by one, keeps every entry before the index in place and moves every
  entry after the index one position down: exactly that entry is deleted and the order of
  the others is preserved.
\<close>

theorem RemoveProfile_frame:
  "(index < 0 \<or> index \<ge> int (length (Profiles c)) \<longrightarrow> RemoveProfile c index = c) \<and>
   (0 \<le> index \<and> index < int (length (Profiles c)) \<longrightarrow>
      length (Profiles (RemoveProfile c index)) + 1 = length (Profiles c) \<and>
      (\<forall>j. j < nat index \<longrightarrow> Profiles (RemoveProfile c index) ! j = Profiles c ! j) \<and>
      (\<forall>j. nat index \<le> j \<and> j + 1 < length (Profiles c) \<longrightarrow>
           Profiles (RemoveProfile c index) ! j = Profiles c ! (j + 1)))"
proof (intro conjI impI)
  assume "index < 0 \<or> index \<ge> int (length (Profiles c))"
  then show "RemoveProfile c index = c"
    by (auto simp: RemoveProfile_def)
next
  assume inb: "0 \<le> index \<and> index < int (length (Profiles c))"
  define i where "i = nat index"
  have i: "i < length (Profiles c)" and idx: "nat (index + 1) = Suc i"
    using inb by (auto simp: i_def nat_add_distrib)
  have eq: "Profiles (RemoveProfile c index) = take i (Profiles c) @ drop (Suc i) (Profiles c)"
    using inb idx by (simp add: RemoveProfile_def i_def)
  show "length (Profiles (RemoveProfile c index)) + 1 = length (Profiles c)"
    using i by (simp add: eq)
  show "\<forall>j. j < nat index \<longrightarrow> Profiles (RemoveProfile c index) ! j = Profiles c ! j"
    using i by (simp add: eq nth_append i_def [symmetric])
  show "\<forall>j. nat index \<le> j \<and> j + 1 < length (Profiles c) \<longrightarrow>
           Profiles (RemoveProfile c index) ! j = Profiles c ! (j + 1)"
    using i by (auto simp: eq nth_append i_def [symmetric] min_def)
qed

theorem RemoveProfile_frame_witness:
  "RemoveProfile \<lparr>Profiles = [\<lparr>Name = ''a'', Path = ''/a''\<rparr>, \<lparr>Name = ''b'', Path = ''/b''\<rparr>,
                               \<lparr>Name = ''c'', Path = ''/c''\<rparr>]\<rparr> 3
     = \<lparr>Profiles = [\<lparr>Name = ''a'', Path = ''/a''\<rparr>, \<lparr>Name = ''b'', Path = ''/b''\<rparr>,
                    \<lparr>Name = ''c'', Path = ''/c''\<rparr>]\<rparr> \<and>
   RemoveProfile \<lparr>Profiles = [\<lparr>Name = ''a'', Path = ''/a''\<rparr>, \<lparr>Name = ''b'', Path = ''/b''\<rparr>,
                               \<lparr>Name = ''c'', Path = ''/c''\<rparr>]\<rparr> (-1)
     = \<lparr>Profiles = [\<lparr>Name = ''a'', Path = ''/a''\<rparr>, \<lparr>Name = ''b'', Path = ''/b''\<rparr>,
                    \<lparr>Name = ''c'', Path = ''/c''\<rparr>]\<rparr> \<and>
   length (Profiles (RemoveProfile \<lparr>Profiles = [\<lparr>Name = ''a'', Path = ''/a''\<rparr>,
       \<lparr>Name = ''b'', Path = ''/b''\<rparr>, \<lparr>Name = ''c'', Path = ''/c''\<rparr>]\<rparr> 1)) + 1 = 3 \<and>
   Profiles (RemoveProfile \<lparr>Profiles = [\<lparr>Name = ''a'', Path = ''/a''\<rparr>,
       \<lparr>Name = ''b'', Path = ''/b''\<rparr>, \<lparr>Name = ''c'', Path = ''/c''\<rparr>]\<rparr> 1) ! 0
     = \<lparr>Name = ''a'', Path = ''/a''\<rparr> \<and>
   Profiles (RemoveProfile \<lparr>Profiles = [\<lparr>Name = ''a'', Path = ''/a''\<rparr>,
       \<lparr>Name = ''b'', Path = ''/b''\<rparr>, \<lparr>Name = ''c'', Path = ''/c''\<rparr>]\<rparr> 1) ! 1
     = \<lparr>Name = ''c'', Path = ''/c''\<rparr>"
  using RemoveProfile_frame [of 3 "\<lparr>Profiles = [\<lparr>Name = ''a'', Path = ''/a''\<rparr>,
          \<lparr>Name = ''b'', Path = ''/b''\<rparr>, \<lparr>Name = ''c'', Path = ''/c''\<rparr>]\<rparr>"]
        RemoveProfile_frame [of "-1" "\<lparr>Profiles = [\<lparr>Name = ''a'', Path = ''/a''\<rparr>,
          \<lparr>Name = ''b'', Path = ''/b''\<rparr>, \<lparr>Name = ''c'', Path = ''/c''\<rparr>]\<rparr>"]
        RemoveProfile_frame [of 1 "\<lparr>Profiles = [\<lparr>Name = ''a'', Path = ''/a''\<rparr>,
          \<lparr>Name = ''b'', Path = ''/b''\<rparr>, \<lparr>Name = ''c'', Path = ''/c''\<rparr>]\<rparr>"]
  by simp


section \<open>Properties of the string primitives\<close>

lemma LastIndex_ge: "LastIndex s [c] \<ge> -1"
  by (induction s) (auto simp: Let_def)

lemma LastIndex_char_none: "LastIndex s [c] = -1 \<longleftrightarrow> c \<notin> set s"
proof (induction s)
  case Nil
  then show ?case by simp
next
  case (Cons a s)
  then show ?case using LastIndex_ge [of s c] by (auto simp: HasPrefix_def Let_def)
qed

lemma takeWhile_neq_rev:
  "c \<notin> set s \<Longrightarrow>
   takeWhile (\<lambda>x. x \<noteq> c) (rev s @ ys) = rev s @ takeWhile (\<lambda>x. x \<noteq> c) ys"
  by (rule takeWhile_append2) auto

lemma LastIndex_char_drop:
  "c \<in> set s \<Longrightarrow> drop (nat (LastIndex s [c] + 1)) s = rev (takeWhile (\<lambda>x. x \<noteq> c) (rev s))"
proof (induction s)
  case Nil
  then show ?case by simp
next
  case (Cons a s)
  show ?case
  proof (cases "c \<in> set s")
    case True
    then have ne: "LastIndex s [c] \<noteq> -1" by (simp add: LastIndex_char_none)
    have ge: "LastIndex s [c] \<ge> 0" using ne LastIndex_ge [of s c] by linarith
    have "drop (nat (LastIndex (a # s) [c] + 1)) (a # s) = drop (nat (LastIndex s [c] + 1)) s"
      using ne ge by (simp add: Let_def nat_add_distrib)
    also have "\<dots> = rev (takeWhile (\<lambda>x. x \<noteq> c) (rev s))" using Cons.IH True by simp
    also have "\<dots> = rev (takeWhile (\<lambda>x. x \<noteq> c) (rev (a # s)))"
      using True by (simp add: takeWhile_append1)
    finally show ?thesis .
  next
    case False
    then have none: "LastIndex s [c] = -1" by (simp add: LastIndex_char_none)
    from False Cons.prems have ac: "a = c" by simp
    show ?thesis using none ac takeWhile_neq_rev [OF False, of "[c]"]
      by (simp add: Let_def HasPrefix_def)
  qed
qed

text \<open>Cutting a path after its last slash, as the source does, gives its final segment.\<close>

lemma afterLastSlash_finalSegment:
  "(if LastIndex p ''/'' \<noteq> -1 then drop (nat (LastIndex p ''/'' + 1)) p else p) = finalSegment p"
proof (cases "CHR ''/'' \<in> set p")
  case True
  then show ?thesis
    using LastIndex_char_drop [of "CHR ''/''" p] LastIndex_char_none [of p "CHR ''/''"]
    by (simp add: finalSegment_def)
next
  case False
  have tw: "takeWhile (\<lambda>c. c \<noteq> CHR ''/'') (rev p) = rev p"
    using takeWhile_neq_rev [OF False, of "[]"] by simp
  show ?thesis
    using False LastIndex_char_none [of p "CHR ''/''"]
    by (simp add: finalSegment_def tw del: takeWhile_eq_all_conv)
qed

lemma sessionNamed_iff: "sessionNamed ss n \<longleftrightarrow> (\<exists>s \<in> set ss. ConfigName s = n)"
  by (induction ss) auto

section \<open>Properties of the session-list parser\<close>

lemma Index_ge: "Index s sub \<ge> -1"
  by (induction s) (auto simp: Let_def)

lemma Index_char:
  "Index s [c] = (if c \<in> set s then int (length (takeWhile (\<lambda>x. x \<noteq> c) s)) else -1)"
  by (induction s) (auto simp: HasPrefix_def Let_def)

lemma in_set_take_conv:
  "c \<in> set (take n s) \<longleftrightarrow> c \<in> set s \<and> length (takeWhile (\<lambda>x. x \<noteq> c) s) < n"
proof (induction s arbitrary: n)
  case Nil
  then show ?case by simp
next
  case (Cons a s)
  then show ?case by (cases n) auto
qed

lemma colon_within:
  assumes "tok \<noteq> []" "hd tok \<noteq> CHR '':''"
  shows "(0 < Index tok '':'' \<and> Index tok '':'' < 20) \<longleftrightarrow> CHR '':'' \<in> set (take 20 tok)"
proof -
  obtain a t where tok: "tok = a # t" using assms(1) by (cases tok) auto
  have a: "a \<noteq> CHR '':''" using assms(2) tok by simp
  show ?thesis unfolding Index_char in_set_take_conv using a tok by auto
qed

lemma atNewField_spec:
  "atNewField tail =
     (let tok = dropWhile (\<lambda>c. c = CHR '' '') tail
      in tok \<noteq> [] \<and> isUpper (hd tok) \<and> CHR '':'' \<in> set (take 20 tok))"
proof -
  let ?tok = "dropWhile (\<lambda>c. c = CHR '' '') tail"
  have tl: "TrimLeft tail '' '' = ?tok" by (simp add: TrimLeft_def)
  have up: "(byte (CHR ''A'') \<le> byte c \<and> byte c \<le> byte (CHR ''Z'')) = isUpper c" for c
    by (simp add: isUpper_def byte_def)
  show ?thesis
  proof (cases "?tok \<noteq> [] \<and> isUpper (hd ?tok)")
    case True
    then have "hd ?tok \<noteq> CHR '':''" by (auto simp: isUpper_def byte_def)
    with True show ?thesis
      using colon_within [of ?tok] by (simp add: atNewField_def tl up Let_def)
  next
    case False
    then show ?thesis by (auto simp: atNewField_def tl up Let_def)
  qed
qed


text \<open>The condition under which the loop breaks at \<open>j\<close>.\<close>

lemma loop_cond_boundary:
  assumes "j + 1 < length rest"
  shows "(rest ! j = CHR '' '' \<and> j > 0 \<and> atNewField (drop j rest)) = fieldBoundary rest j"
  using assms by (auto simp: fieldBoundary_def atNewField_spec Let_def)

lemma no_boundary_at_end:
  assumes "j + 1 \<ge> length rest"
  shows "\<not> fieldBoundary rest j"
proof
  assume b: "fieldBoundary rest j"
  then have j: "j < length rest" and sp: "rest ! j = CHR '' ''" by (auto simp: fieldBoundary_def)
  with assms have "drop j rest = [CHR '' '']"
    by (metis Cons_nth_drop_Suc Suc_eq_plus1 drop_all)
  with b show False by (simp add: fieldBoundary_def)
qed

lemma extractLoop_find:
  "extractLoop rest i =
     (case find (fieldBoundary rest) [i..<length rest] of Some j \<Rightarrow> take j rest | None \<Rightarrow> rest)"
proof (induction rest i rule: extractLoop.induct)
  case (1 rest i)
  show ?case
  proof (cases "i + 1 < length rest")
    case True
    then have upt: "[i..<length rest] = i # [Suc i..<length rest]" by (simp add: upt_conv_Cons)
    have c: "(rest ! i = CHR '' '' \<and> i > 0 \<and> atNewField (drop i rest)) = fieldBoundary rest i"
      using True by (rule loop_cond_boundary)
    show ?thesis
    proof (cases "fieldBoundary rest i")
      case b: True
      then show ?thesis using True c by (subst extractLoop.simps) (simp add: upt)
    next
      case b: False
      have "extractLoop rest i = extractLoop rest (Suc i)"
        using True c b by (subst extractLoop.simps) auto
      also have "\<dots> = (case find (fieldBoundary rest) [Suc i..<length rest] of
                          Some j \<Rightarrow> take j rest | None \<Rightarrow> rest)"
        using "1.IH" True c b by auto
      finally show ?thesis using b by (simp add: upt)
    qed
  next
    case False
    have "find (fieldBoundary rest) [i..<length rest] = None"
      using False no_boundary_at_end [of rest] by (auto simp: find_None_iff)
    then show ?thesis using False by (subst extractLoop.simps) auto
  qed
qed

text \<open>
  Claim C6. The value extracted for a key is the text after the key, cut where the first
  field boundary lies (a space, not the first character after the key, whose run of spaces
  is followed by an upper-case letter with a colon among the 20 characters from it), and
  trimmed; without a boundary it is the whole trimmed remainder, without the key it is
  empty. For the line \<open>Created: 2024-01-01 10:00:00 PID: 1234 Owner: alice\<close> and the key
  \<open>Created:\<close> the value is \<open>2024-01-01 10:00:00\<close> (the witness below).
\<close>

theorem extractValue_first_boundary:
  "extractValue line key =
     (if Index line key = -1 then []
      else (let rest = drop (nat (Index line key) + length key) line
            in TrimSpace (case firstBoundary rest of Some i \<Rightarrow> take i rest | None \<Rightarrow> rest)))"
proof -
  have "nat (Index line key + int (length key)) = nat (Index line key) + length key"
    if "Index line key \<noteq> -1"
    using that Index_ge [of line key] by (simp add: nat_add_distrib)
  then show ?thesis
    by (simp add: extractValue_def Let_def extractLoop_find firstBoundary_def)
qed

lemma example_Index:
  "Index ''Created: 2024-01-01 10:00:00 PID: 1234 Owner: alice'' ''Created:'' = 0"
  by code_simp

lemma example_firstBoundary:
  "firstBoundary '' 2024-01-01 10:00:00 PID: 1234 Owner: alice'' = Some 20"
  by (simp add: firstBoundary_def fieldBoundary_def isUpper_def byte_def upt_rec)

lemma example_TrimSpace: "TrimSpace '' 2024-01-01 10:00:00'' = ''2024-01-01 10:00:00''"
  by code_simp

theorem extractValue_first_boundary_witness:
  "extractValue ''Created: 2024-01-01 10:00:00 PID: 1234 Owner: alice'' ''Created:''
     = ''2024-01-01 10:00:00''"
proof -
  let ?l = "''Created: 2024-01-01 10:00:00 PID: 1234 Owner: alice''"
  have r: "drop (nat (Index ?l ''Created:'') + length ''Created:'') ?l
             = '' 2024-01-01 10:00:00 PID: 1234 Owner: alice''"
    unfolding example_Index by simp
  have t: "take 20 '' 2024-01-01 10:00:00 PID: 1234 Owner: alice'' = '' 2024-01-01 10:00:00''"
    by simp
  have "extractValue ?l ''Created:'' = TrimSpace (take 20 '' 2024-01-01 10:00:00 PID: 1234 Owner: alice'')"
    unfolding extractValue_first_boundary [of ?l "''Created:''"] r Let_def example_firstBoundary
    by (simp only: example_Index option.case) simp
  then show ?thesis unfolding t example_TrimSpace .
qed

lemma failing_raw: "extractValue ''Config name: x (Config not available) y.ovpn'' ''Config name:''
     = ''x (Config not available) y.ovpn''"
  by code_simp

lemma failing_clean: "cleanConfigName ''x (Config not available) y.ovpn'' = ''x''"
  by code_simp

lemma failing_spec: "specConfigName ''x (Config not available) y.ovpn'' = ''x (Config not available) y''"
  by code_simp

lemma failing_lines:
  "scanLines (''Path: /s/1'' @ [CHR 0x0A] @
              ''Config name: x (Config not available) y.ovpn'' @ [CHR 0x0A])
     = [''Path: /s/1'', ''Config name: x (Config not available) y.ovpn'']"
  by (simp add: scanLines_def dropCR_def)

lemma failing_line1:
  "\<not> HasPrefix (TrimSpace ''Path: /s/1'') ''---''"
  "Contains ''Path: /s/1'' ''Path:''"
  "extractValue ''Path: /s/1'' ''Path:'' = ''/s/1''"
  by code_simp+

lemma failing_line2:
  "\<not> HasPrefix (TrimSpace ''Config name: x (Config not available) y.ovpn'') ''---''"
  "\<not> Contains ''Config name: x (Config not available) y.ovpn'' ''Path:''"
  "\<not> Contains ''Config name: x (Config not available) y.ovpn'' ''Created:''"
  "\<not> Contains ''Config name: x (Config not available) y.ovpn'' ''Owner:''"
  "\<not> Contains ''Config name: x (Config not available) y.ovpn'' ''Device:''"
  "Contains ''Config name: x (Config not available) y.ovpn'' ''Config name:''"
  "\<not> Contains ''Config name: x (Config not available) y.ovpn'' ''Connected to:''"
  "\<not> Contains ''Config name: x (Config not available) y.ovpn'' ''Status:''"
  by code_simp+

text \<open>
  Claim C8 describes the stored config name as the raw value with a trailing
  \<open>(Config not available)\<close> stripped and trimmed, cut after its last slash and without a
  trailing \<open>.ovpn\<close>. For a listing whose config-name line carries text after that marker
  the parser stores something else: it cuts the raw value at the first occurrence of the
  marker, wherever it stands. Here the raw value is \<open>x (Config not available) y.ovpn\<close>,
  the parser stores \<open>x\<close>, and the described name is \<open>x (Config not available) y\<close>.
\<close>

theorem parseSessionsList_marker_inside:
  "parseSessionsList (''Path: /s/1'' @ [CHR 0x0A] @
                      ''Config name: x (Config not available) y.ovpn'' @ [CHR 0x0A])
     = [emptySession\<lparr>SPath := ''/s/1'', ConfigName := ''x''\<rparr>] \<and>
   extractValue ''Config name: x (Config not available) y.ovpn'' ''Config name:''
     = ''x (Config not available) y.ovpn'' \<and>
   specConfigName ''x (Config not available) y.ovpn'' = ''x (Config not available) y''"
proof -
  have "parseSessionsList (''Path: /s/1'' @ [CHR 0x0A] @
                      ''Config name: x (Config not available) y.ovpn'' @ [CHR 0x0A])
     = [emptySession\<lparr>SPath := ''/s/1'', ConfigName := ''x''\<rparr>]"
    unfolding parseSessionsList_def failing_lines
    by (simp add: parseLine_def parseFields_def failing_line1 failing_line2 failing_raw failing_clean Let_def)
  then show ?thesis using failing_raw failing_spec by simp
qed

lemma HasPrefix_Index: "HasPrefix (drop k s) sub \<Longrightarrow> k \<le> length s \<Longrightarrow> Index s sub \<noteq> -1"
proof (induction s arbitrary: k)
  case Nil
  then show ?case by (simp add: HasPrefix_def)
next
  case (Cons c cs)
  show ?case
  proof (cases k)
    case 0
    then show ?thesis using Cons.prems by simp
  next
    case (Suc j)
    then have "Index cs sub \<noteq> -1" using Cons by simp
    then show ?thesis using Index_ge [of cs sub] by (auto simp: Let_def)
  qed
qed

lemma HasSuffix_drop:
  "HasSuffix s sub \<longleftrightarrow> length sub \<le> length s \<and> HasPrefix (drop (length s - length sub) s) sub"
  by (auto simp: HasSuffix_def HasPrefix_def)

text \<open>
  Where the marker does not occur, or occurs only as the suffix, the stored name is the one
  the claim describes.
\<close>

lemma cleanConfigName_agrees:
  assumes "(Index raw ''(Config not available)'' = -1 \<and> TrimSpace raw = raw) \<or>
           (HasSuffix raw ''(Config not available)'' \<and>
            Index raw ''(Config not available)'' = int (length raw - length ''(Config not available)''))"
  shows "cleanConfigName raw = specConfigName raw"
proof -
  define mk where "mk = ''(Config not available)''"
  have clean: "cleanConfigName raw =
      TrimSuffix (finalSegment (if Index raw mk \<noteq> -1 then TrimSpace (take (nat (Index raw mk)) raw) else raw)) ''.ovpn''"
    unfolding cleanConfigName_def Let_def afterLastSlash_finalSegment mk_def ..
  have spec: "specConfigName raw = TrimSuffix (finalSegment (TrimSpace (TrimSuffix raw mk))) ''.ovpn''"
    unfolding specConfigName_def mk_def ..
  from assms have "(Index raw mk = -1 \<and> TrimSpace raw = raw) \<or>
      (HasSuffix raw mk \<and> Index raw mk = int (length raw - length mk))"
    unfolding mk_def .
  then show ?thesis
  proof
    assume a: "Index raw mk = -1 \<and> TrimSpace raw = raw"
    have "\<not> HasSuffix raw mk"
      using a HasPrefix_Index [of "length raw - length mk" raw mk] by (auto simp: HasSuffix_drop)
    then show ?thesis using a by (simp add: clean spec TrimSuffix_def)
  next
    assume a: "HasSuffix raw mk \<and> Index raw mk = int (length raw - length mk)"
    then show ?thesis by (simp add: clean spec TrimSuffix_def)
  qed
qed

section \<open>Properties of the byte formatter\<close>

lemma skipSpace_trimLeftSpace: "skipSpace s = Some r \<Longrightarrow> trimLeftSpace s = r"
proof (induction s rule: skipSpace.induct)
  case (1 s)
  show ?case
  proof (cases s)
    case Nil
    then show ?thesis using "1.prems"
      by (subst trimLeftSpace.simps) (simp add: skipSpace.simps [of "[]"])
  next
    case (Cons c cs)
    note s = Cons
    show ?thesis
    proof (cases "c = CHR 0x0D \<and> HasPrefix cs [CHR 0x0A]")
      case True
      then have sk: "skipSpace cs = Some r"
        using "1.prems" s by (subst (asm) skipSpace.simps) simp
      have "trimLeftSpace cs = r" using "1.IH"(1) [OF s _ sk] True by simp
      moreover have "space_width s = 1" using True s by (simp add: ascii_space_def byte_def)
      ultimately show ?thesis using s by (subst trimLeftSpace.simps) simp
    next
      case False
      note nocr = False
      show ?thesis
      proof (cases "c = CHR 0x0A")
        case True
        then show ?thesis using "1.prems" s nocr by (subst (asm) skipSpace.simps) auto
      next
        case False
        note nolf = False
        show ?thesis
        proof (cases "space_width s = 0")
          case True
          then have "r = s" using "1.prems" s nocr nolf by (subst (asm) skipSpace.simps) auto
          then show ?thesis using True by (subst trimLeftSpace.simps) simp
        next
          case False
          then have sk: "skipSpace (drop (space_width s) s) = Some r"
            using "1.prems" s nocr nolf by (subst (asm) skipSpace.simps) auto
          have "trimLeftSpace (drop (space_width s) s) = r"
            using "1.IH"(2) [OF s nocr nolf False sk] .
          then show ?thesis using False by (subst trimLeftSpace.simps) simp
        qed
      qed
    qed
  qed
qed

lemma isDigit_not_sign: "isDigit c \<Longrightarrow> c \<noteq> CHR ''+'' \<and> c \<noteq> CHR ''-''"
  by (auto simp: isDigit_def byte_def)

lemma scanInt_None:
  assumes "\<not> beginsWithInteger s"
  shows "scanInt s = None"
proof (cases "skipSpace s")
  case None
  then show ?thesis by (simp add: scanInt_def)
next
  case (Some r)
  then have r: "trimLeftSpace s = r" by (rule skipSpace_trimLeftSpace)
  define sign where "sign = (if hd r = CHR ''+'' \<or> hd r = CHR ''-'' then [hd r] else [])"
  define r1 where "r1 = drop (length sign) r"
  have sc: "scanInt s =
      (if r = [] then None
       else if r1 = [] then None
       else if \<not> isDigit (hd r1) then None
       else ParseInt (sign @ takeWhile isDigit r1))"
    by (simp add: scanInt_def Some Let_def sign_def r1_def)
  show ?thesis
  proof (cases "r = [] \<or> r1 = []")
    case True
    then show ?thesis by (auto simp: sc)
  next
    case False
    then have ne: "r \<noteq> []" "r1 \<noteq> []" by auto
    have d: "(if r \<noteq> [] \<and> (hd r = CHR ''+'' \<or> hd r = CHR ''-'') then tl r else r) = r1"
      using ne by (auto simp: r1_def sign_def drop_Suc)
    have "\<not> (r1 \<noteq> [] \<and> isDigit (hd r1))"
      using assms unfolding beginsWithInteger_def Let_def r d .
    then have "\<not> isDigit (hd r1)" using ne by simp
    then show ?thesis using ne by (simp add: sc)
  qed
qed

lemma showNat_0: "showNat 0 = ''0''"
  by code_simp

text \<open>
  Claim C10. A string that does not begin with a decimal integer (an optional sign and a
  digit) after its leading white space is rendered as \<open>0 B\<close>: the scan fails, the
  variable keeps its zero value and no error is reported.
\<close>

theorem formatBytes_unparsable:
  assumes "\<not> beginsWithInteger s"
  shows "formatBytes s = ''0 B''"
  using scanInt_None [OF assms]
  by (simp add: formatBytes_def GB_def MB_def KB_def showInt_def showNat_0)

lemma not_integer_abc: "\<not> beginsWithInteger ''abc''" by code_simp
lemma not_integer_dots: "\<not> beginsWithInteger '' ..''" by code_simp

theorem formatBytes_unparsable_witness:
  "formatBytes ''abc'' = ''0 B'' \<and> formatBytes '' ..'' = ''0 B''"
  using formatBytes_unparsable [OF not_integer_abc] formatBytes_unparsable [OF not_integer_dots] by simp

lemma byte_digitChar: "0 \<le> d \<Longrightarrow> d < 10 \<Longrightarrow> byte (digitChar d) = nat (48 + d)"
  by (simp add: byte_def digitChar_def)

lemma isDigit_digitChar: "0 \<le> d \<Longrightarrow> d < 10 \<Longrightarrow> isDigit (digitChar d)"
  by (simp add: isDigit_def byte_digitChar) (auto simp: byte_def)

lemma digitsValue_snoc: "digitsValue (xs @ [c]) = 10 * digitsValue xs + (int (byte c) - 48)"
  by (simp add: digitsValue_def)

lemma showNat_digits:
  "0 \<le> n \<Longrightarrow> showNat n \<noteq> [] \<and> list_all isDigit (showNat n) \<and> digitsValue (showNat n) = n"
proof (induction n rule: showNat.induct)
  case (1 n)
  show ?case
  proof (cases "n < 10")
    case True
    then have s: "showNat n = [digitChar n]" by (subst showNat.simps) simp
    show ?thesis using True "1.prems"
      by (simp add: s isDigit_digitChar digitsValue_def byte_digitChar)
  next
    case False
    then have s: "showNat n = showNat (n div 10) @ [digitChar (n mod 10)]"
      by (subst showNat.simps) simp
    have ih: "showNat (n div 10) \<noteq> [] \<and> list_all isDigit (showNat (n div 10)) \<and>
          digitsValue (showNat (n div 10)) = n div 10"
      using "1.IH" False "1.prems" by simp
    have m: "0 \<le> n mod 10" "n mod 10 < 10" by simp_all
    show ?thesis using ih m
      by (simp add: s isDigit_digitChar digitsValue_snoc byte_digitChar)
  qed
qed

lemma isDigit_no_space:
  assumes "isDigit c"
  shows "space_width (c # cs) = 0 \<and> c \<noteq> CHR 0x0A \<and> c \<noteq> CHR 0x0D"
  using assms by (auto simp: isDigit_def ascii_space_def byte_def)

lemma skipSpace_digit: "isDigit c \<Longrightarrow> skipSpace (c # cs) = Some (c # cs)"
  using isDigit_no_space [of c cs] by (subst skipSpace.simps) simp

lemma takeWhile_all: "list_all P xs \<Longrightarrow> takeWhile P xs = xs"
  by (induction xs) auto

lemma scanInt_digits:
  assumes "ds \<noteq> []" "list_all isDigit ds" "digitsValue ds < 2 ^ 63"
  shows "scanInt ds = Some (digitsValue ds)"
proof -
  obtain c cs where ds: "ds = c # cs" using assms(1) by (cases ds) auto
  have c: "isDigit c" using assms(2) ds by simp
  then have ns: "c \<noteq> CHR ''+''" "c \<noteq> CHR ''-''" using isDigit_not_sign by auto
  have tw: "takeWhile isDigit ds = ds"
    using assms(2) by (rule takeWhile_all)
  have p: "ParseInt ds = Some (digitsValue ds)"
    using assms ns ds by (simp add: ParseInt_def Let_def)
  have "scanInt ds = ParseInt (takeWhile isDigit ds)"
    using c ns unfolding ds by (simp add: scanInt_def skipSpace_digit Let_def)
  then show ?thesis by (simp only: tw p)
qed

lemma scanInt_showInt:
  assumes "0 \<le> b" "b < 2 ^ 63"
  shows "scanInt (showInt b) = Some b"
  using showNat_digits [OF assms(1)] scanInt_digits [of "showNat b"] assms
  by (simp add: showInt_def)

lemma hundredths_near:
  assumes "0 < den"
  shows "2 * \<bar>100 * num - hundredths num den * den\<bar> \<le> den"
proof -
  define q where "q = (100 * num) div den"
  define r where "r = (100 * num) mod den"
  have eq: "100 * num = q * den + r" by (simp add: q_def r_def)
  have r: "0 \<le> r" "r < den" using assms by (simp_all add: r_def)
  have h: "hundredths num den = (if 2 * r > den \<or> (2 * r = den \<and> odd q) then q + 1 else q)"
    by (simp add: hundredths_def Let_def q_def r_def)
  show ?thesis
  proof (cases "2 * r > den \<or> (2 * r = den \<and> odd q)")
    case True
    then have "hundredths num den * den = q * den + den" by (simp only: h if_True algebra_simps)
    moreover have "den \<le> 2 * r" using True by linarith
    ultimately show ?thesis using eq r by simp
  next
    case False
    then have "hundredths num den * den = q * den" by (simp only: h if_False)
    moreover have "2 * r \<le> den" using False by linarith
    ultimately show ?thesis using eq r by simp
  qed
qed

lemma bitLength_le: "0 \<le> b \<Longrightarrow> b < 2 ^ n \<Longrightarrow> bitLength b \<le> n"
proof (induction n arbitrary: b)
  case 0
  then have "b = 0" by simp
  then show ?case by (subst bitLength.simps) simp
next
  case (Suc n)
  show ?case
  proof (cases "b \<le> 0")
    case True
    then show ?thesis by (subst bitLength.simps) simp
  next
    case False
    have "b div 2 < 2 ^ n" using Suc.prems by auto
    moreover have "0 \<le> b div 2" using Suc.prems by simp
    ultimately have "bitLength (b div 2) \<le> n" using Suc.IH by blast
    then show ?thesis using False by (subst bitLength.simps) simp
  qed
qed

lemma float64_exact: "0 \<le> b \<Longrightarrow> b < 2 ^ 53 \<Longrightarrow> float64 b = b"
  using bitLength_le [of b 53] by (simp add: float64_def)

lemma largestUnit_cases:
  "largestUnit b = (if b \<ge> GB then 3 else if b \<ge> MB then 2 else if b \<ge> KB then 1 else 0)"
  by (auto simp: largestUnit_def GB_def MB_def KB_def max_def)

lemma bitLength_bounds: "0 < b \<Longrightarrow> 2 ^ (bitLength b - 1) \<le> b \<and> b < 2 ^ bitLength b"
proof (induction b rule: bitLength.induct)
  case (1 n)
  have bl: "bitLength n = Suc (bitLength (n div 2))" using "1.prems" by (subst bitLength.simps) simp
  show ?case
  proof (cases "n div 2 = 0")
    case True
    then have n1: "n = 1" using "1.prems" by presburger
    have "bitLength (n div 2) = 0" using True by (subst bitLength.simps) simp
    then show ?thesis using n1 bl by simp
  next
    case False
    then have pos: "0 < n div 2" using "1.prems" by simp
    have ih: "2 ^ (bitLength (n div 2) - 1) \<le> n div 2 \<and> n div 2 < 2 ^ bitLength (n div 2)"
      using "1.IH" "1.prems" pos by simp
    have blpos: "bitLength (n div 2) > 0" using pos by (subst bitLength.simps) simp
    then obtain k where k: "bitLength (n div 2) = Suc k" by (cases "bitLength (n div 2)") auto
    from ih have "2 ^ k \<le> n div 2" "n div 2 < 2 ^ Suc k" by (simp_all add: k)
    then have "2 * 2 ^ k \<le> n" "n < 2 * 2 ^ Suc k" by linarith+
    then show ?thesis by (simp add: bl k)
  qed
qed

lemma float64_rounds:
  assumes "2 ^ 53 \<le> b"
  shows "\<exists>e. 0 < e \<and> 2 ^ (52 + e) \<le> b \<and> b < 2 ^ (53 + e) \<and> 2 ^ e dvd float64 b \<and>
             2 * \<bar>float64 b - b\<bar> \<le> 2 ^ e \<and>
             (2 * \<bar>float64 b - b\<bar> = 2 ^ e \<longrightarrow> even (float64 b div 2 ^ e))"
proof -
  have "(0::int) < 2 ^ 53" by simp
  then have pos: "0 < b" using assms by linarith
  have gt: "bitLength b > 53"
  proof (rule ccontr)
    assume "\<not> bitLength b > 53"
    then have "bitLength b \<le> 53" by simp
    then have "(2::int) ^ bitLength b \<le> 2 ^ 53" by (intro power_increasing) simp_all
    then show False using bitLength_bounds [OF pos] assms by linarith
  qed
  define e where "e = bitLength b - 53"
  have e: "0 < e" "bitLength b = 53 + e" using gt by (simp_all add: e_def)
  define q where "q = b div 2 ^ e"
  define r where "r = b mod 2 ^ e"
  have eq: "b = q * 2 ^ e + r" unfolding q_def r_def by (rule div_mult_mod_eq [symmetric])
  have r: "0 \<le> r" "r < 2 ^ e" by (simp_all add: r_def)
  obtain e' where e': "e = Suc e'" using e(1) by (cases e) auto
  have half: "2 * (2::int) ^ (e - 1) = 2 ^ e" by (simp add: e')
  have f: "float64 b = (if r > 2 ^ (e - 1) \<or> (r = 2 ^ (e - 1) \<and> odd q) then q + 1 else q) * 2 ^ e"
    using gt by (simp add: float64_def Let_def e_def q_def r_def)
  have b1: "2 ^ (52 + e) \<le> b" "b < 2 ^ (53 + e)"
    using bitLength_bounds [OF pos] by (simp_all add: e(2))
  have dv: "2 ^ e dvd float64 b" by (simp add: f)
  show ?thesis
  proof (cases "r > 2 ^ (e - 1) \<or> (r = 2 ^ (e - 1) \<and> odd q)")
    case True
    then have fv: "float64 b = (q + 1) * 2 ^ e" by (simp only: f if_True)
    then have d: "float64 b - b = 2 ^ e - r" using eq by (simp add: algebra_simps)
    have le: "2 ^ e \<le> 2 * r" using True half by linarith
    have dist: "2 * \<bar>float64 b - b\<bar> \<le> 2 ^ e" using d r le by simp
    have tie: "even (float64 b div 2 ^ e)" if "2 * \<bar>float64 b - b\<bar> = 2 ^ e"
    proof -
      from that d r have "2 * r = 2 ^ e" by simp
      then have "r = 2 ^ (e - 1)" using half by linarith
      then have "odd q" using True by simp
      then show ?thesis by (simp add: fv)
    qed
    show ?thesis using e(1) b1 dv dist tie by blast
  next
    case False
    then have fv: "float64 b = q * 2 ^ e" by (simp only: f if_False)
    then have d: "float64 b - b = - r" using eq by simp
    have le: "2 * r \<le> 2 ^ e" using False half by linarith
    have dist: "2 * \<bar>float64 b - b\<bar> \<le> 2 ^ e" using d r le by simp
    have tie: "even (float64 b div 2 ^ e)" if "2 * \<bar>float64 b - b\<bar> = 2 ^ e"
    proof -
      from that d r have "2 * r = 2 ^ e" by simp
      then have "r = 2 ^ (e - 1)" using half by linarith
      then have "even q" using False by simp
      then show ?thesis by (simp add: fv)
    qed
    show ?thesis using e(1) b1 dv dist tie by blast
  qed
qed

lemma hundredths_tie:
  assumes "0 < den" "2 * \<bar>100 * num - hundredths num den * den\<bar> = den"
  shows "even (hundredths num den)"
proof -
  define q where "q = (100 * num) div den"
  define r where "r = (100 * num) mod den"
  have eq: "100 * num = q * den + r" unfolding q_def r_def by (rule div_mult_mod_eq [symmetric])
  have r: "0 \<le> r" "r < den" using assms(1) by (simp_all add: r_def)
  have h: "hundredths num den = (if 2 * r > den \<or> (2 * r = den \<and> odd q) then q + 1 else q)"
    by (simp add: hundredths_def Let_def q_def r_def)
  show ?thesis
  proof (cases "2 * r > den \<or> (2 * r = den \<and> odd q)")
    case True
    then have hv: "hundredths num den = q + 1" by (simp only: h if_True)
    then have "100 * num - hundredths num den * den = r - den" using eq by (simp add: algebra_simps)
    then have "2 * r = den" using assms(2) r by simp
    then show ?thesis using True hv by simp
  next
    case False
    then have hv: "hundredths num den = q" by (simp only: h if_False)
    then have "100 * num - hundredths num den * den = r" using eq by simp
    then have "2 * r = den" using assms(2) r by simp
    then show ?thesis using False hv by simp
  qed
qed

text \<open>
  Claim C7, as amended. For every integer \<open>0 \<le> b < 2^63\<close>, written in decimal, the
  formatter prints \<open>b\<close> itself with the unit \<open>B\<close> when \<open>b < 1024\<close>, and otherwise a
  number with an integer part, a point and exactly two decimals, followed by the largest
  of the units KB, MB, GB (powers of 1024) that does not exceed \<open>b\<close>. The number is
  \<open>x\<close> divided by the unit and rounded to the nearest hundredth, a tie going to the even
  hundredth, where \<open>x\<close> is the 64-bit floating-point value of \<open>b\<close>: \<open>b\<close> itself below
  \<open>2^53\<close>, and from \<open>2^53\<close> on \<open>b\<close> rounded to 53 significant bits (the nearest multiple
  of \<open>2^e\<close> for \<open>2^(52+e) \<le> b < 2^(53+e)\<close>, a tie going to the even multiple). The witness
  below gives the five values of the specification and one value above \<open>2^53\<close>.
\<close>

theorem formatBytes_largest_unit:
  assumes "0 \<le> b" "b < 2 ^ 63"
  shows "formatBytes (showInt b) =
           (if largestUnit b = 0 then showInt b @ '' B''
            else sprintf2f (float64 b) (1024 ^ largestUnit b) @ '' '' @ unitNames ! largestUnit b) \<and>
         sprintf2f (float64 b) (1024 ^ largestUnit b) =
           showNat (hundredths (float64 b) (1024 ^ largestUnit b) div 100) @ ''.'' @
           [digitChar (hundredths (float64 b) (1024 ^ largestUnit b) mod 100 div 10),
            digitChar (hundredths (float64 b) (1024 ^ largestUnit b) mod 10)] \<and>
         2 * \<bar>100 * float64 b - hundredths (float64 b) (1024 ^ largestUnit b) * 1024 ^ largestUnit b\<bar>
           \<le> 1024 ^ largestUnit b \<and>
         (2 * \<bar>100 * float64 b - hundredths (float64 b) (1024 ^ largestUnit b) * 1024 ^ largestUnit b\<bar>
            = 1024 ^ largestUnit b \<longrightarrow> even (hundredths (float64 b) (1024 ^ largestUnit b))) \<and>
         (b < 2 ^ 53 \<longrightarrow> float64 b = b) \<and>
         (2 ^ 53 \<le> b \<longrightarrow>
            (\<exists>e. 0 < e \<and> 2 ^ (52 + e) \<le> b \<and> b < 2 ^ (53 + e) \<and> 2 ^ e dvd float64 b \<and>
                 2 * \<bar>float64 b - b\<bar> \<le> 2 ^ e \<and>
                 (2 * \<bar>float64 b - b\<bar> = 2 ^ e \<longrightarrow> even (float64 b div 2 ^ e))))"
proof -
  have s: "scanInt (showInt b) = Some b" using assms by (rule scanInt_showInt)
  have 1: "formatBytes (showInt b) =
           (if largestUnit b = 0 then showInt b @ '' B''
            else sprintf2f (float64 b) (1024 ^ largestUnit b) @ '' '' @ unitNames ! largestUnit b)"
    by (simp add: formatBytes_def s largestUnit_cases unitNames_def GB_def MB_def KB_def)
  have 2: "sprintf2f (float64 b) (1024 ^ largestUnit b) =
           showNat (hundredths (float64 b) (1024 ^ largestUnit b) div 100) @ ''.'' @
           [digitChar (hundredths (float64 b) (1024 ^ largestUnit b) mod 100 div 10),
            digitChar (hundredths (float64 b) (1024 ^ largestUnit b) mod 10)]"
    by (simp add: sprintf2f_def twoDecimals_def)
  have u: "(0::int) < 1024 ^ largestUnit b" by simp
  note 3 = hundredths_near [OF u, of "float64 b"]
  have 4: "2 * \<bar>100 * float64 b - hundredths (float64 b) (1024 ^ largestUnit b) * 1024 ^ largestUnit b\<bar>
            = 1024 ^ largestUnit b \<longrightarrow> even (hundredths (float64 b) (1024 ^ largestUnit b))"
    using hundredths_tie [OF u, of "float64 b"] by blast
  have 5: "b < 2 ^ 53 \<longrightarrow> float64 b = b" using float64_exact [OF assms(1)] by blast
  have 6: "2 ^ 53 \<le> b \<longrightarrow>
            (\<exists>e. 0 < e \<and> 2 ^ (52 + e) \<le> b \<and> b < 2 ^ (53 + e) \<and> 2 ^ e dvd float64 b \<and>
                 2 * \<bar>float64 b - b\<bar> \<le> 2 ^ e \<and>
                 (2 * \<bar>float64 b - b\<bar> = 2 ^ e \<longrightarrow> even (float64 b div 2 ^ e)))"
    using float64_rounds [of b] by blast
  show ?thesis using 1 2 3 4 5 6 by (intro conjI)
qed

theorem formatBytes_largest_unit_witness:
  "formatBytes ''0'' = ''0 B'' \<and> formatBytes ''1023'' = ''1023 B'' \<and>
   formatBytes ''1024'' = ''1.00 KB'' \<and> formatBytes ''1048576'' = ''1.00 MB'' \<and>
   formatBytes ''1073741824'' = ''1.00 GB'' \<and>
   formatBytes ''4611686018432756613'' = ''4294967296.01 GB''"
proof -
  have "formatBytes ''0'' = ''0 B''"
  proof -
    have s: "showInt 0 = ''0''" by code_simp
    have l: "largestUnit 0 = 0" by code_simp
    have "formatBytes (showInt 0) =
           (if largestUnit 0 = 0 then showInt 0 @ '' B''
            else sprintf2f (float64 0) (1024 ^ largestUnit 0) @ '' '' @ unitNames ! largestUnit 0)"
      by (rule formatBytes_largest_unit [THEN conjunct1]) simp_all
    then show ?thesis unfolding l s by simp
  qed
  moreover
  have "formatBytes ''1023'' = ''1023 B''"
  proof -
    have s: "showInt 1023 = ''1023''" by code_simp
    have l: "largestUnit 1023 = 0" by code_simp
    have "formatBytes (showInt 1023) =
           (if largestUnit 1023 = 0 then showInt 1023 @ '' B''
            else sprintf2f (float64 1023) (1024 ^ largestUnit 1023) @ '' '' @ unitNames ! largestUnit 1023)"
      by (rule formatBytes_largest_unit [THEN conjunct1]) simp_all
    then show ?thesis unfolding l s by simp
  qed
  moreover
  have "formatBytes ''1024'' = ''1.00 KB''"
  proof -
    have s: "showInt 1024 = ''1024''" by code_simp
    have l: "largestUnit 1024 = 1" by code_simp
    have r: "sprintf2f (float64 1024) (1024 ^ 1) @ '' '' @ unitNames ! 1 = ''1.00 KB''" by code_simp
    have "formatBytes (showInt 1024) =
           (if largestUnit 1024 = 0 then showInt 1024 @ '' B''
            else sprintf2f (float64 1024) (1024 ^ largestUnit 1024) @ '' '' @ unitNames ! largestUnit 1024)"
      by (rule formatBytes_largest_unit [THEN conjunct1]) simp_all
    then show ?thesis unfolding l s r by simp
  qed
  moreover
  have "formatBytes ''1048576'' = ''1.00 MB''"
  proof -
    have s: "showInt 1048576 = ''1048576''" by code_simp
    have l: "largestUnit 1048576 = 2" by code_simp
    have r: "sprintf2f (float64 1048576) (1024 ^ 2) @ '' '' @ unitNames ! 2 = ''1.00 MB''" by code_simp
    have "formatBytes (showInt 1048576) =
           (if largestUnit 1048576 = 0 then showInt 1048576 @ '' B''
            else sprintf2f (float64 1048576) (1024 ^ largestUnit 1048576) @ '' '' @ unitNames ! largestUnit 1048576)"
      by (rule formatBytes_largest_unit [THEN conjunct1]) simp_all
    then show ?thesis unfolding l s r by simp
  qed
  moreover
  have "formatBytes ''1073741824'' = ''1.00 GB''"
  proof -
    have s: "showInt 1073741824 = ''1073741824''" by code_simp
    have l: "largestUnit 1073741824 = 3" by code_simp
    have r: "sprintf2f (float64 1073741824) (1024 ^ 3) @ '' '' @ unitNames ! 3 = ''1.00 GB''" by code_simp
    have "formatBytes (showInt 1073741824) =
           (if largestUnit 1073741824 = 0 then showInt 1073741824 @ '' B''
            else sprintf2f (float64 1073741824) (1024 ^ largestUnit 1073741824) @ '' '' @ unitNames ! largestUnit 1073741824)"
      by (rule formatBytes_largest_unit [THEN conjunct1]) simp_all
    then show ?thesis unfolding l s r by simp
  qed
  moreover
  have "formatBytes ''4611686018432756613'' = ''4294967296.01 GB''"
  proof -
    have s: "showInt 4611686018432756613 = ''4611686018432756613''" by code_simp
    have l: "largestUnit 4611686018432756613 = 3" by code_simp
    have r: "sprintf2f (float64 4611686018432756613) (1024 ^ 3) @ '' '' @ unitNames ! 3 = ''4294967296.01 GB''" by code_simp
    have "formatBytes (showInt 4611686018432756613) =
           (if largestUnit 4611686018432756613 = 0 then showInt 4611686018432756613 @ '' B''
            else sprintf2f (float64 4611686018432756613) (1024 ^ largestUnit 4611686018432756613) @ '' '' @ unitNames ! largestUnit 4611686018432756613)"
      by (rule formatBytes_largest_unit [THEN conjunct1]) simp_all
    then show ?thesis unfolding l s r by simp
  qed
  ultimately show ?thesis by blast
qed

text \<open>
  The claim C7 as it was stated, for every non-negative integer, fails at \<open>2^63\<close>: the
  number does not fit the 64-bit variable, the scan fails and \<open>0 B\<close> is printed, where
  the largest unit is GB and the value in it is 8589934592.00.
\<close>

theorem formatBytes_largest_unit_counterexample:
  "showInt 9223372036854775808 = ''9223372036854775808'' \<and>
   largestUnit 9223372036854775808 = 3 \<and>
   sprintf2f 9223372036854775808 (1024 ^ 3) @ '' GB'' = ''8589934592.00 GB'' \<and>
   formatBytes ''9223372036854775808'' = ''0 B''"
  by code_simp

section \<open>Properties of the state machine\<close>

text \<open>
  Claim C3. A connect completion that carries an error leaves \<open>loading = False\<close>, sets a
  non-empty error message and schedules nothing, so no session-list refresh; a connect
  completion without an error schedules a session-list refresh, with \<open>loading\<close> set and
  the loading label \<open>Refreshing sessions...\<close>. This holds in every state.
\<close>

theorem connectMsg_result:
  "(\<exists>m'. Update env m (ConnectMsg (Some e)) = Inr (m', []) \<and>
         loading m' = False \<and> errorMsg m' \<noteq> [] \<and> errorMsg m' = ''Connection failed: '' @ e) \<and>
   (\<exists>m' cmds. Update env m (ConnectMsg None) = Inr (m', cmds) \<and>
         RefreshSessions \<in> set cmds \<and> loading m' = True \<and>
         loadingMsg m' = ''Refreshing sessions...'')"
  by (simp add: Update_def)

text \<open>
  Claim C5. A profile is reported as connected exactly when some session's config name
  equals the final segment of the profile path with a trailing \<open>.ovpn\<close> removed.
\<close>

theorem isProfileConnected_iff:
  "isProfileConnected m profilePath \<longleftrightarrow>
     (\<exists>s \<in> set (sessions m). ConfigName s = TrimSuffix (finalSegment profilePath) ''.ovpn'')"
  using afterLastSlash_finalSegment [of profilePath]
  by (simp add: isProfileConnected_def Let_def sessionNamed_iff)

lemma finalSegment_example: "TrimSuffix (finalSegment ''/home/u/Work.ovpn'') ''.ovpn'' = ''Work''"
  by (simp add: finalSegment_def TrimSuffix_def HasSuffix_def)

theorem isProfileConnected_iff_witness:
  "isProfileConnected
     ((NewModel () (\<lambda>p. True) \<lparr>Profiles = []\<rparr>)
        \<lparr>sessions := [emptySession\<lparr>ConfigName := ''Home''\<rparr>, emptySession\<lparr>ConfigName := ''Work''\<rparr>]\<rparr>)
     ''/home/u/Work.ovpn'' \<and>
   \<not> isProfileConnected
     ((NewModel () (\<lambda>p. True) \<lparr>Profiles = []\<rparr>)
        \<lparr>sessions := [emptySession\<lparr>ConfigName := ''Home''\<rparr>, emptySession\<lparr>ConfigName := ''Work.ovpn''\<rparr>]\<rparr>)
     ''/home/u/Work.ovpn''"
  using isProfileConnected_iff [of "(NewModel () (\<lambda>p. True) \<lparr>Profiles = []\<rparr>)
        \<lparr>sessions := [emptySession\<lparr>ConfigName := ''Home''\<rparr>, emptySession\<lparr>ConfigName := ''Work''\<rparr>]\<rparr>"
        "''/home/u/Work.ovpn''"]
     isProfileConnected_iff [of "(NewModel () (\<lambda>p. True) \<lparr>Profiles = []\<rparr>)
        \<lparr>sessions := [emptySession\<lparr>ConfigName := ''Home''\<rparr>, emptySession\<lparr>ConfigName := ''Work.ovpn''\<rparr>]\<rparr>"
        "''/home/u/Work.ovpn''"]
  by (simp add: finalSegment_example NewModel_def emptySession_def)

lemma at_Inr: "0 \<le> i \<Longrightarrow> i < int (length xs) \<Longrightarrow> at xs i = Inr (xs ! nat i)"
  by (simp add: at_def)

lemma at_InrD: "at xs i = Inr x \<Longrightarrow> 0 \<le> i \<and> i < int (length xs) \<and> x = xs ! nat i"
  by (auto simp: at_def split: if_splits)

text \<open>
  Claim C4, as amended. In the Profiles view, in normal mode, with the cursor on a profile
  \<open>p\<close> of the list, the enter key
  \<^item> on a profile marked invalid sets the error message \<open>Config file not found\<close>, clears
    the status message, schedules nothing and changes nothing else;
  \<^item> on a valid profile that is reported as connected sets the error message
    \<open>'<name>' is already connected\<close>, clears the status message and schedules nothing;
  \<^item> otherwise sets \<open>loading\<close>, the loading label and the status message, clears the error
    message and schedules the spinner tick and exactly one connect task, for the profile's
    path.
\<close>

theorem handleEnter_profiles:
  assumes "inputMode m = InputNone" and "currentView m = ViewProfiles"
    and "at (Profiles (config m)) (profileCursor m) = Inr p"
  shows "Update env m (KeyMsg ''enter'') =
     (if \<not> validAt m (profileCursor m)
      then Inr (m\<lparr>statusMsg := [], errorMsg := ''Config file not found''\<rparr>, [])
      else if isProfileConnected m (Path p)
      then Inr (m\<lparr>statusMsg := [],
                  errorMsg := [CHR 0x27] @ Name p @ [CHR 0x27] @ '' is already connected''\<rparr>, [])
      else Inr (m\<lparr>statusMsg := ''Connecting to '' @ Name p @ ''...'', errorMsg := [],
                  loading := True, loadingMsg := ''Connecting...''\<rparr>,
                [SpinnerTick, ConnectCmd (Path p)]))"
proof -
  from assms(3) have ne: "Profiles (config m) \<noteq> []"
    by (auto simp: at_def split: if_splits)
  have conn: "isProfileConnected (clearMessages m) (Path p) = isProfileConnected m (Path p)"
    by (simp add: isProfileConnected_def clearMessages_def)
  have valid: "validAt (clearMessages m) (profileCursor m) = validAt m (profileCursor m)"
    by (simp add: validAt_def clearMessages_def)
  show ?thesis
    using assms ne conn valid
    by (simp add: Update_def updateKey_def handleEnter_def Let_def clearMessages_def)
qed


lemma handleEnter_msgs:
  "handleEnter m = Inr (m', cmds) \<Longrightarrow> statusMsg m' = [] \<or> errorMsg m' = []"
  by (auto simp: handleEnter_def Let_def clearMessages_def split: if_splits sum.splits)

lemma handleDelete_msgs:
  "handleDelete env m = Inr (m', cmds) \<Longrightarrow> statusMsg m' = [] \<or> errorMsg m' = []"
  by (auto simp: handleDelete_def Let_def clearMessages_def split: if_splits sum.splits option.splits)

lemma completeWith_msgs:
  "statusMsg (completeWith env sel m) = statusMsg m \<and> errorMsg (completeWith env sel m) = errorMsg m"
  by (simp add: completeWith_def Let_def)

lemma forwardKey_msgs:
  "statusMsg (fst (forwardKey env m key)) = statusMsg m \<and>
   errorMsg (fst (forwardKey env m key)) = errorMsg m"
  by (simp add: forwardKey_def Let_def)

lemma handleInputMode_msgs:
  "statusMsg m = [] \<Longrightarrow> errorMsg m = [] \<Longrightarrow>
   statusMsg (fst (handleInputMode env m key)) = [] \<or> errorMsg (fst (handleInputMode env m key)) = []"
  by (simp add: handleInputMode_def Let_def completeWith_msgs forwardKey_msgs split: option.splits)

lemma updateKey_other_msgs:
  assumes "inputMode m = InputNone" "key \<noteq> ''enter''" "key \<noteq> ''d''" "key \<noteq> ''delete''"
  shows "case updateKey env m key of
           Inr (m', cmds) \<Rightarrow> (statusMsg m' = [] \<and> errorMsg m' = []) \<or>
                              (statusMsg m' = statusMsg m \<and> errorMsg m' = errorMsg m)
         | Inl e \<Rightarrow> True"
  using assms
  by (simp add: updateKey_def clearMessages_def moveCursorUp_def moveCursorDown_def
        startAddProfile_def split: sum.split)

lemma updateKey_msgs:
  assumes "statusMsg m = []" "errorMsg m = []" "updateKey env m key = Inr (m', cmds)"
  shows "statusMsg m' = [] \<or> errorMsg m' = []"
proof (cases "inputMode m = InputNone")
  case False
  then have "m' = fst (handleInputMode env m key)" using assms(3) by (auto simp: updateKey_def)
  then show ?thesis using handleInputMode_msgs [OF assms(1,2)] by simp
next
  case True
  consider (enter) "key = ''enter''" | (del) "key = ''d'' \<or> key = ''delete''"
    | (other) "key \<noteq> ''enter''" "key \<noteq> ''d''" "key \<noteq> ''delete''" by blast
  then show ?thesis
  proof cases
    case enter
    then have "handleEnter m = Inr (m', cmds)" using assms(3) True by (simp add: updateKey_def)
    then show ?thesis by (rule handleEnter_msgs)
  next
    case del
    then have "handleDelete env m = Inr (m', cmds)" using assms(3) True by (auto simp: updateKey_def)
    then show ?thesis by (rule handleDelete_msgs)
  next
    case other
    show ?thesis using updateKey_other_msgs [OF True other, of env] assms by auto 
  qed
qed

lemma Update_msgs:
  assumes "statusMsg m = []" "errorMsg m = []" "Update env m msg = Inr (m', cmds)"
  shows "statusMsg m' = [] \<or> errorMsg m' = []"
proof (cases msg)
  case (KeyMsg key)
  then show ?thesis using assms updateKey_msgs [of m env key m' cmds] by (simp add: Update_def)
next
  case (SessionRefreshMsg ss err)
  then show ?thesis using assms by (cases err) (auto simp: Update_def Let_def split: if_splits)
next
  case (StatsRefreshMsg st err)
  then show ?thesis using assms by (cases err) (auto simp: Update_def)
next
  case (ConnectMsg err)
  then show ?thesis using assms by (cases err) (auto simp: Update_def)
next
  case (DisconnectMsg err)
  then show ?thesis using assms by (cases err) (auto simp: Update_def)
qed (use assms in \<open>auto simp: Update_def\<close>)

text \<open>No panic from a state whose cursors are in range.\<close>

lemma cursorInv_at_profiles:
  "cursorInv m \<Longrightarrow> Profiles (config m) \<noteq> [] \<Longrightarrow>
   at (Profiles (config m)) (profileCursor m) = Inr (Profiles (config m) ! nat (profileCursor m))"
  by (auto simp: cursorInv_def cursorOK_def at_def)

lemma cursorInv_at_sessions:
  "cursorInv m \<Longrightarrow> sessions m \<noteq> [] \<Longrightarrow>
   at (sessions m) (sessionCursor m) = Inr (sessions m ! nat (sessionCursor m))"
  by (auto simp: cursorInv_def cursorOK_def at_def)

lemma cursorInv_clearMessages [simp]: "cursorInv (clearMessages m) = cursorInv m"
  by (simp add: cursorInv_def clearMessages_def)

lemma clearMessages_fields [simp]:
  "config (clearMessages m) = config m" "sessions (clearMessages m) = sessions m"
  "profileCursor (clearMessages m) = profileCursor m"
  "sessionCursor (clearMessages m) = sessionCursor m"
  "currentView (clearMessages m) = currentView m"
  by (simp_all add: clearMessages_def)

lemma handleEnter_total:
  assumes "cursorInv m"
  shows "\<exists>m' cmds. handleEnter m = Inr (m', cmds)"
  using cursorInv_at_profiles [of "clearMessages m"] cursorInv_at_sessions [of "clearMessages m"] assms
  by (auto simp: handleEnter_def Let_def)

lemma handleDelete_total:
  assumes "cursorInv m"
  shows "\<exists>m' cmds. handleDelete env m = Inr (m', cmds)"
  using cursorInv_at_profiles [of "clearMessages m"] cursorInv_at_sessions [of "clearMessages m"] assms
  by (auto simp: handleDelete_def Let_def)

lemma updateKey_total:
  assumes "cursorInv m"
  shows "\<exists>m' cmds. updateKey env m key = Inr (m', cmds)"
proof -
  obtain m1 c1 where e: "handleEnter m = Inr (m1, c1)" using handleEnter_total [OF assms] by blast
  obtain m2 c2 where d: "handleDelete env m = Inr (m2, c2)"
    using handleDelete_total [OF assms] by blast
  have s: "sessions m \<noteq> [] \<Longrightarrow> at (sessions m) (sessionCursor m) = Inr (sessions m ! nat (sessionCursor m))"
    using cursorInv_at_sessions [OF assms] by simp
  show ?thesis
    by (simp add: updateKey_def e d s)
qed

lemma Update_total:
  assumes "cursorInv m"
  shows "\<exists>m' cmds. Update env m msg = Inr (m', cmds)"
  using updateKey_total [OF assms, of env]
  by (cases msg) (auto simp: Update_def Let_def split: option.splits)


lemma updateKey_clearing:
  assumes "inputMode m = InputNone"
    and "key = ''tab'' \<or> key = ''r'' \<or> (key = ''a'' \<and> currentView m = ViewProfiles)"
  shows "\<exists>m' cmds. updateKey env m key = Inr (m', cmds) \<and> statusMsg m' = [] \<and> errorMsg m' = []"
proof -
  consider (tab) "key = ''tab''" | (r) "key = ''r''" | (a) "key = ''a''" "currentView m = ViewProfiles"
    using assms(2) by blast
  then show ?thesis
  proof cases
    case tab
    then show ?thesis using assms(1) by (simp add: updateKey_def clearMessages_def)
  next
    case r
    then show ?thesis using assms(1) by (simp add: updateKey_def clearMessages_def)
  next
    case a
    then show ?thesis using assms(1)
      by (simp add: updateKey_def clearMessages_def startAddProfile_def)
  qed
qed

text \<open>
  Claim C1, as amended. From a state whose cursors are in range every event is applied
  without a panic, and
  \<^item> when both messages were empty before the event, at most one of them is non-empty
    after it;
  \<^item> in normal mode the keys \<open>tab\<close> and \<open>r\<close>, and \<open>a\<close> in the Profiles view, leave both
    messages empty;
  \<^item> in normal mode the keys \<open>enter\<close>, \<open>d\<close> and \<open>delete\<close> leave at most one of them
    non-empty, whatever was shown before.
\<close>

theorem messages_after_update:
  assumes "cursorInv m"
  shows "\<exists>m' cmds. Update env m msg = Inr (m', cmds) \<and>
      (statusMsg m = [] \<and> errorMsg m = [] \<longrightarrow> statusMsg m' = [] \<or> errorMsg m' = []) \<and>
      (inputMode m = InputNone \<and>
         (msg = KeyMsg ''tab'' \<or> msg = KeyMsg ''r'' \<or>
          (msg = KeyMsg ''a'' \<and> currentView m = ViewProfiles)) \<longrightarrow>
         statusMsg m' = [] \<and> errorMsg m' = []) \<and>
      (inputMode m = InputNone \<and>
         (msg = KeyMsg ''enter'' \<or> msg = KeyMsg ''d'' \<or> msg = KeyMsg ''delete'') \<longrightarrow>
         statusMsg m' = [] \<or> errorMsg m' = [])"
proof -
  obtain m' cmds where u: "Update env m msg = Inr (m', cmds)"
    using Update_total [OF assms] by blast
  have a: "statusMsg m = [] \<and> errorMsg m = [] \<longrightarrow> statusMsg m' = [] \<or> errorMsg m' = []"
    using Update_msgs [OF _ _ u] by blast
  have b: "statusMsg m' = [] \<and> errorMsg m' = []"
    if "inputMode m = InputNone"
      and "msg = KeyMsg ''tab'' \<or> msg = KeyMsg ''r'' \<or> (msg = KeyMsg ''a'' \<and> currentView m = ViewProfiles)"
  proof -
    from that(2) obtain key where k: "msg = KeyMsg key"
      and kk: "key = ''tab'' \<or> key = ''r'' \<or> (key = ''a'' \<and> currentView m = ViewProfiles)"
      by blast
    from updateKey_clearing [OF that(1) kk, of env] u k show ?thesis
      by (auto simp: Update_def)
  qed
  have c: "statusMsg m' = [] \<or> errorMsg m' = []"
    if "inputMode m = InputNone"
      and "msg = KeyMsg ''enter'' \<or> msg = KeyMsg ''d'' \<or> msg = KeyMsg ''delete''"
  proof -
    from that have "handleEnter m = Inr (m', cmds) \<or> handleDelete env m = Inr (m', cmds)"
      using u by (auto simp: Update_def updateKey_def)
    then show ?thesis using handleEnter_msgs handleDelete_msgs by blast
  qed
  show ?thesis using u a b c by blast
qed

text \<open>
  What a session-list refresh without an error changes: the session list, and the session
  cursor when it is at or past the end of the new list.
\<close>

lemma sessionRefresh_fields:
  "\<exists>m'. Update env m (SessionRefreshMsg ss None) = Inr (m', []) \<and> sessions m' = ss \<and>
        config m' = config m \<and> profileCursor m' = profileCursor m \<and>
        (0 \<le> sessionCursor m \<longrightarrow> cursorOK (sessionCursor m') (length ss)) \<and>
        (cursorOK (profileCursor m) (length (Profiles (config m))) \<longrightarrow>
           cursorOK (profileCursor m') (length (Profiles (config m'))))"
  by (auto simp: Update_def Let_def cursorOK_def)

lemma RemoveProfile_length:
  "0 \<le> i \<Longrightarrow> i < int (length (Profiles c)) \<Longrightarrow>
   length (Profiles (RemoveProfile c i)) = length (Profiles c) - 1"
  by (auto simp: RemoveProfile_def)

lemma handleDelete_profiles_fields:
  assumes "currentView m = ViewProfiles" "0 \<le> profileCursor m"
    "profileCursor m < int (length (Profiles (config m)))"
    "handleDelete env m = Inr (m', cmds)"
  shows "config m' = RemoveProfile (config m) (profileCursor m) \<and>
         sessions m' = sessions m \<and> sessionCursor m' = sessionCursor m \<and>
         profileCursor m' =
           (if profileCursor m \<ge> int (length (Profiles (config m))) - 1
            then max 0 (int (length (Profiles (config m))) - 2) else profileCursor m)"
proof -
  have at: "at (Profiles (config m)) (profileCursor m) = Inr (Profiles (config m) ! nat (profileCursor m))"
    using assms(2,3) by (simp add: at_def)
  have ne: "Profiles (config m) \<noteq> []" using assms(2,3) by auto
  have len: "int (length (Profiles (RemoveProfile (config m) (profileCursor m))))
               = int (length (Profiles (config m))) - 1"
    using RemoveProfile_length [OF assms(2,3)] ne by (simp add: of_nat_diff Suc_leI)
  show ?thesis
  proof (cases "saveError env")
    case None
    then show ?thesis using assms(1,4) ne
      by (auto simp: handleDelete_def Let_def at len clearMessages_def)
  next
    case (Some err)
    then show ?thesis using assms(1,4) ne
      by (auto simp: handleDelete_def Let_def at len clearMessages_def)
  qed
qed

lemma handleDelete_cursorInv:
  assumes "cursorInv m" "handleDelete env m = Inr (m', cmds)"
  shows "cursorInv m'"
proof (cases "currentView m = ViewProfiles \<and> Profiles (config m) \<noteq> []")
  case True
  then have r: "0 \<le> profileCursor m" "profileCursor m < int (length (Profiles (config m)))"
    using assms(1) by (auto simp: cursorInv_def cursorOK_def)
  have len: "length (Profiles (RemoveProfile (config m) (profileCursor m))) = length (Profiles (config m)) - 1"
    using r by (rule RemoveProfile_length)
  from handleDelete_profiles_fields [OF _ r assms(2)] True
  have f: "config m' = RemoveProfile (config m) (profileCursor m)"
    "sessions m' = sessions m" "sessionCursor m' = sessionCursor m"
    "profileCursor m' =
           (if profileCursor m \<ge> int (length (Profiles (config m))) - 1
            then max 0 (int (length (Profiles (config m))) - 2) else profileCursor m)"
    by simp_all
  have s: "cursorOK (sessionCursor m') (length (sessions m'))"
    using assms(1) f by (simp add: cursorInv_def)
  have p: "cursorOK (profileCursor m') (length (Profiles (config m')))"
    using r unfolding f len cursorOK_def by (cases "length (Profiles (config m))") auto
  show ?thesis using s p by (simp add: cursorInv_def)
next
  case False
  then show ?thesis using assms
    by (auto simp: handleDelete_def Let_def cursorInv_def clearMessages_def split: if_splits sum.splits)
qed

lemma handleEnter_cursorInv:
  assumes "cursorInv m" "handleEnter m = Inr (m', cmds)"
  shows "cursorInv m'"
  using assms
  by (auto simp: handleEnter_def Let_def cursorInv_def clearMessages_def split: if_splits sum.splits)

lemma handleInputMode_cursorInv:
  assumes "cursorInv m"
  shows "cursorInv (fst (handleInputMode env m key))"
proof -
  have cw: "\<And>sel. cursorInv (completeWith env sel m)"
    using assms by (simp add: completeWith_def Let_def cursorInv_def)
  have fk: "cursorInv (fst (forwardKey env m key))"
    using assms by (simp add: forwardKey_def Let_def cursorInv_def)
  have add: "cursorOK c n \<Longrightarrow> cursorOK c (Suc n)" for c n
    by (auto simp: cursorOK_def)
  show ?thesis using assms cw fk
    by (auto simp: handleInputMode_def Let_def cursorInv_def AddProfile_def add split: option.splits)
qed

lemma moveCursorUp_cursorInv: "cursorInv m \<Longrightarrow> cursorInv (moveCursorUp m)"
  by (auto simp: moveCursorUp_def cursorInv_def cursorOK_def)

lemma moveCursorDown_cursorInv: "cursorInv m \<Longrightarrow> cursorInv (moveCursorDown m)"
  by (auto simp: moveCursorDown_def cursorInv_def cursorOK_def)

lemma updateKey_cursorInv:
  assumes "cursorInv m" "updateKey env m key = Inr (m', cmds)"
  shows "cursorInv m'"
proof (cases "inputMode m = InputNone")
  case False
  then have "m' = fst (handleInputMode env m key)" using assms(2) by (auto simp: updateKey_def)
  then show ?thesis using handleInputMode_cursorInv [OF assms(1)] by simp
next
  case True
  consider (enter) "key = ''enter''" | (del) "key = ''d'' \<or> key = ''delete''"
    | (other) "key \<noteq> ''enter''" "key \<noteq> ''d''" "key \<noteq> ''delete''" by blast
  then show ?thesis
  proof cases
    case enter
    then have "handleEnter m = Inr (m', cmds)" using assms(2) True by (simp add: updateKey_def)
    then show ?thesis using handleEnter_cursorInv assms(1) by blast
  next
    case del
    then have "handleDelete env m = Inr (m', cmds)" using assms(2) True by (auto simp: updateKey_def)
    then show ?thesis using handleDelete_cursorInv assms(1) by blast
  next
    case other
    have up: "cursorInv (moveCursorUp m)" and down: "cursorInv (moveCursorDown m)"
      using assms(1) by (simp_all add: moveCursorUp_cursorInv moveCursorDown_cursorInv)
    have same: "cursorInv x"
      if "config x = config m" "sessions x = sessions m" "profileCursor x = profileCursor m"
         "sessionCursor x = sessionCursor m" for x :: "'a Model"
      using that assms(1) by (simp add: cursorInv_def)
    have "case updateKey env m key of Inr (m', cmds) \<Rightarrow> cursorInv m' | Inl e \<Rightarrow> True"
      using True other assms(1)
      by (simp add: updateKey_def up down same clearMessages_def startAddProfile_def split: sum.split)
    then show ?thesis using assms(2) by simp
  qed
qed

lemma Update_cursorInv:
  assumes "cursorInv m" "Update env m msg = Inr (m', cmds)"
  shows "cursorInv m'"
proof (cases msg)
  case (KeyMsg key)
  then show ?thesis using assms updateKey_cursorInv [of m env key m' cmds] by (simp add: Update_def)
next
  case (SessionRefreshMsg ss err)
  then show ?thesis using assms
    by (cases err) (auto simp: Update_def Let_def cursorInv_def cursorOK_def split: if_splits)
next
  case (StatsRefreshMsg st err)
  then show ?thesis using assms by (cases err) (auto simp: Update_def cursorInv_def)
next
  case (ConnectMsg err)
  then show ?thesis using assms by (cases err) (auto simp: Update_def cursorInv_def)
next
  case (DisconnectMsg err)
  then show ?thesis using assms by (cases err) (auto simp: Update_def cursorInv_def)
qed (use assms in \<open>auto simp: Update_def cursorInv_def\<close>)

lemma NewModel_cursorInv: "cursorInv (NewModel ti exists cfg)"
  by (simp add: NewModel_def cursorInv_def cursorOK_def)

lemma run_cursorInv:
  "cursorInv m \<Longrightarrow> \<exists>m'. run env m msgs = Inr m' \<and> cursorInv m'"
proof (induction msgs arbitrary: m)
  case Nil
  then show ?case by simp
next
  case (Cons msg msgs)
  obtain m1 cmds where u: "Update env m msg = Inr (m1, cmds)"
    using Update_total [OF Cons.prems] by blast
  have "cursorInv m1" using Update_cursorInv [OF Cons.prems u] .
  from Cons.IH [OF this] show ?case using u by simp
qed

text \<open>
  Claim C2. In every state the event loop reaches from the initial model, whatever the
  cursors are there, a session-list refresh result without an error replaces the session
  list by the new one, of length \<open>L\<close>, and schedules nothing, and in the resulting state
  both cursors satisfy the bound against their own lists: \<open>0 \<le> cursor < L\<close>, or
  \<open>cursor = 0\<close> when the list is empty.
\<close>

theorem sessionRefresh_cursors_reached:
  assumes "run env (NewModel ti exists cfg) msgs = Inr m"
  shows "\<exists>m'. Update env m (SessionRefreshMsg ss None) = Inr (m', []) \<and> sessions m' = ss \<and>
              cursorOK (sessionCursor m') (length (sessions m')) \<and>
              cursorOK (profileCursor m') (length (Profiles (config m')))"
proof -
  obtain m0 where "run env (NewModel ti exists cfg) msgs = Inr m0" and inv: "cursorInv m0"
    using run_cursorInv [OF NewModel_cursorInv, of env ti exists cfg msgs] by blast
  with assms have m: "cursorInv m" by simp
  then have s: "0 \<le> sessionCursor m" and p: "cursorOK (profileCursor m) (length (Profiles (config m)))"
    by (auto simp: cursorInv_def cursorOK_def)
  obtain m' where u: "Update env m (SessionRefreshMsg ss None) = Inr (m', [])"
    and f: "sessions m' = ss" "config m' = config m" "profileCursor m' = profileCursor m"
    and c: "0 \<le> sessionCursor m \<longrightarrow> cursorOK (sessionCursor m') (length ss)"
    using sessionRefresh_fields [of env m ss] by blast
  show ?thesis using u f c s p by auto
qed

section \<open>Scenarios of the state machine\<close>

text \<open>
  The claim C4 as it was stated fails after a profile whose file is missing has been
  added: the status line \<open>Added profile: W\<close> is shown, the enter key on the invalid
  profile sets the error and also clears that status line.
\<close>

theorem handleEnter_profiles_counterexample:
  "(case run (demoEnv (\<lambda>p. False)) (NewModel [] (\<lambda>p. False) \<lparr>Profiles = []\<rparr>)
          [SessionRefreshMsg [] None, KeyMsg ''a'', KeyMsg ''/'', KeyMsg ''x'', KeyMsg ''enter'',
           KeyMsg ''W'', KeyMsg ''enter''] of
      Inr m \<Rightarrow>
        inputMode m = InputNone \<and> currentView m = ViewProfiles \<and>
        at (Profiles (config m)) (profileCursor m) = Inr \<lparr>Name = ''W'', Path = ''/x''\<rparr> \<and>
        \<not> validAt m (profileCursor m) \<and> statusMsg m = ''Added profile: W'' \<and>
        (case Update (demoEnv (\<lambda>p. False)) m (KeyMsg ''enter'') of
           Inr (m', cmds) \<Rightarrow>
             statusMsg m' = [] \<and> statusMsg m' \<noteq> statusMsg m \<and>
             errorMsg m' = ''Config file not found'' \<and> cmds = []
         | Inl e \<Rightarrow> False)
    | Inl e \<Rightarrow> False)"
  by code_simp

theorem handleEnter_profiles_witness:
  "(case Update (demoEnv (\<lambda>p. True))
           (NewModel [] (\<lambda>p. True) \<lparr>Profiles = [\<lparr>Name = ''Work'', Path = ''/home/u/Work.ovpn''\<rparr>]\<rparr>)
           (KeyMsg ''enter'') of
      Inr (m', cmds) \<Rightarrow>
        cmds = [SpinnerTick, ConnectCmd ''/home/u/Work.ovpn''] \<and> loading m' \<and>
        statusMsg m' = ''Connecting to Work...'' \<and> errorMsg m' = []
    | Inl e \<Rightarrow> False)"
proof -
  let ?m = "NewModel ([] :: string) (\<lambda>p. True) \<lparr>Profiles = [\<lparr>Name = ''Work'', Path = ''/home/u/Work.ovpn''\<rparr>]\<rparr>"
  have a: "inputMode ?m = InputNone" and b: "currentView ?m = ViewProfiles"
    and c: "at (Profiles (config ?m)) (profileCursor ?m) = Inr \<lparr>Name = ''Work'', Path = ''/home/u/Work.ovpn''\<rparr>"
    by (simp_all add: NewModel_def at_def)
  have v: "validAt ?m (profileCursor ?m)"
    by (simp add: NewModel_def validAt_def ValidateProfiles_def)
  have n: "\<not> isProfileConnected ?m ''/home/u/Work.ovpn''"
    by (simp add: isProfileConnected_def NewModel_def Let_def)
  have e: "Update (demoEnv (\<lambda>p. True)) ?m (KeyMsg ''enter'') =
      Inr (?m\<lparr>statusMsg := ''Connecting to Work...'', errorMsg := [], loading := True,
               loadingMsg := ''Connecting...''\<rparr>,
           [SpinnerTick, ConnectCmd ''/home/u/Work.ovpn''])"
    unfolding handleEnter_profiles [OF a b c] using v n by simp
  show ?thesis unfolding e by simp
qed

text \<open>
  The claim C1 as it was stated fails when a connect task fails: the status line of the
  enter key is still shown when the error line of the completion is set, and the view
  writes both.
\<close>

theorem messages_after_update_counterexample:
  "(case run (demoEnv (\<lambda>p. True))
          (NewModel [] (\<lambda>p. True) \<lparr>Profiles = [\<lparr>Name = ''Work'', Path = ''/home/u/Work.ovpn''\<rparr>]\<rparr>)
          [SessionRefreshMsg [] None, KeyMsg ''enter'', ConnectMsg (Some ''exit status 1'')] of
      Inr m \<Rightarrow>
        statusMsg m = ''Connecting to Work...'' \<and>
        errorMsg m = ''Connection failed: exit status 1'' \<and>
        viewMessages m = [''Connection failed: exit status 1'', ''Connecting to Work...'']
    | Inl e \<Rightarrow> False)"
  by code_simp

theorem messages_after_update_witness:
  "(case Update (demoEnv (\<lambda>p. True))
           ((NewModel [] (\<lambda>p. True) \<lparr>Profiles = []\<rparr>)\<lparr>statusMsg := ''Connected successfully!''\<rparr>)
           (KeyMsg ''tab'') of
      Inr (m', cmds) \<Rightarrow> statusMsg m' = [] \<and> errorMsg m' = []
    | Inl e \<Rightarrow> False)"
proof -
  let ?m = "(NewModel ([] :: string) (\<lambda>p. True) \<lparr>Profiles = []\<rparr>)\<lparr>statusMsg := ''Connected successfully!''\<rparr>"
  have inv: "cursorInv ?m" by (simp add: cursorInv_def cursorOK_def NewModel_def)
  have mode: "inputMode ?m = InputNone" by (simp add: NewModel_def)
  show ?thesis
    using messages_after_update [OF inv, of "demoEnv (\<lambda>p. True)" "KeyMsg ''tab''"] mode
    by auto
qed

theorem sessionRefresh_cursors_reached_witness:
  "(case run (demoEnv (\<lambda>p. True))
          (NewModel [] (\<lambda>p. True) \<lparr>Profiles = [\<lparr>Name = ''Work'', Path = ''/home/u/Work.ovpn''\<rparr>]\<rparr>)
          [SessionRefreshMsg [emptySession, emptySession, emptySession] None,
           KeyMsg ''tab'', KeyMsg ''j'', KeyMsg ''j''] of
      Inr m \<Rightarrow>
        sessionCursor m = 2 \<and>
        (case Update (demoEnv (\<lambda>p. True)) m (SessionRefreshMsg [emptySession] None) of
           Inr (m', cmds) \<Rightarrow>
             sessionCursor m' = 0 \<and> cmds = [] \<and>
             cursorOK (sessionCursor m') (length (sessions m')) \<and>
             cursorOK (profileCursor m') (length (Profiles (config m')))
         | Inl e \<Rightarrow> False)
    | Inl e \<Rightarrow> False)"
proof -
  let ?env = "demoEnv (\<lambda>p. True)"
  let ?m0 = "NewModel ([] :: string) (\<lambda>p. True) \<lparr>Profiles = [\<lparr>Name = ''Work'', Path = ''/home/u/Work.ovpn''\<rparr>]\<rparr>"
  let ?msgs = "[SessionRefreshMsg [emptySession, emptySession, emptySession] None,
           KeyMsg ''tab'', KeyMsg ''j'', KeyMsg ''j'']"
  have ev: "(case run ?env ?m0 ?msgs of
      Inr m \<Rightarrow> sessionCursor m = 2 \<and>
        (case Update ?env m (SessionRefreshMsg [emptySession] None) of
           Inr (m', cmds) \<Rightarrow> sessionCursor m' = 0 | Inl e \<Rightarrow> False)
    | Inl e \<Rightarrow> False)"
    by code_simp
  then obtain m where r: "run ?env ?m0 ?msgs = Inr m" and sc: "sessionCursor m = 2"
    and u0: "(case Update ?env m (SessionRefreshMsg [emptySession] None) of
           Inr (m', cmds) \<Rightarrow> sessionCursor m' = 0 | Inl e \<Rightarrow> False)"
    by (auto split: sum.splits)
  from sessionRefresh_cursors_reached [OF r, of "[emptySession]"]
  obtain m' where u: "Update ?env m (SessionRefreshMsg [emptySession] None) = Inr (m', [])"
    and ok: "cursorOK (sessionCursor m') (length (sessions m'))"
            "cursorOK (profileCursor m') (length (Profiles (config m')))"
    by blast
  from u0 u have "sessionCursor m' = 0" by simp
  then show ?thesis using r sc u ok by simp
qed

end
